theory Spec2Isabelle
  imports Main "HOL-Library.Multiset" "HOL-Library.List_Lexorder" "HOL-Library.Monad_Syntax"
begin

section \<open>Data model\<close>

text \<open>
  The ranking service works on JavaScript numbers. Scores, quotas and usage counters
  are modelled as integers (the values on which JavaScript's arithmetic is exact); the
  one non-integer value the service can produce from them is \<open>NaN\<close>, which arises
  when an absent score (\<open>undefined\<close>) enters an addition or a subtraction.
\<close>

datatype number = Num int | NaN

text \<open>
  \<open>Student\<close>: the \<open>scores\<close> object maps a subject key to its score; reading a key
  that the object does not have gives \<open>undefined\<close>, here \<open>None\<close>. The callers build
  this object from the configured subjects, so any key can be present or absent.
  \<open>preferredStreams\<close> is an array of track names, possibly empty. The field \<open>id\<close> is
  written \<open>id'\<close>, and the \<open>id\<close> of a plan \<open>plan_id\<close>.
\<close>

record Student =
  id' :: string
  title :: string
  firstName :: string
  lastName :: string
  preferredStreams :: "string list"
  scores :: "string \<rightharpoonup> int"

record StudyPlan =
  plan_id :: string
  name :: string
  quota :: int

text \<open>
  \<open>RankedStudent\<close>: a student (all fields copied by the object spread) with
  \<open>totalScore\<close>, \<open>rank\<close> and \<open>qualifiedStream\<close> (\<open>null\<close> is \<open>None\<close>).
\<close>

record RankedStudent = Student +
  totalScore :: number
  rank :: nat
  qualifiedStream :: "string option"

section \<open>JavaScript arithmetic on possibly absent numbers\<close>

text \<open>\<open>ToNumber\<close>: \<open>undefined\<close> converts to \<open>NaN\<close>.\<close>

fun to_number :: "int option \<Rightarrow> number" where
  "to_number None = NaN"
| "to_number (Some v) = Num v"

fun js_add :: "number \<Rightarrow> number \<Rightarrow> number" where
  "js_add (Num a) (Num b) = Num (a + b)"
| "js_add _ _ = NaN"

fun js_sub :: "number \<Rightarrow> number \<Rightarrow> number" where
  "js_sub (Num a) (Num b) = Num (a - b)"
| "js_sub _ _ = NaN"

text \<open>\<open>x !== y\<close> on numbers: \<open>NaN\<close> differs from everything, itself included.\<close>

fun strict_neq :: "number \<Rightarrow> number \<Rightarrow> bool" where
  "strict_neq (Num a) (Num b) = (a \<noteq> b)"
| "strict_neq _ _ = True"

section \<open>The ranking service\<close>

text \<open>
  \<open>calculateTotal\<close> reads the five fixed keys of \<open>student.scores\<close> and adds them
  from left to right; its second parameter \<open>subjects\<close> is never read.
\<close>

definition calculateTotal :: "'a Student_scheme \<Rightarrow> number" where
  "calculateTotal student =
     (let math = scores student ''math'';
          science = scores student ''science'';
          thai = scores student ''thai'';
          english = scores student ''english'';
          social = scores student ''social''
      in js_add (js_add (js_add (js_add (to_number math) (to_number science))
           (to_number thai)) (to_number english)) (to_number social))"

text \<open>
  \<open>tieBreaker\<close>: the first of science, math, english, thai whose values differ
  (\<open>!==\<close>, where \<open>undefined\<close> equals only \<open>undefined\<close>) decides, by \<open>b - a\<close>;
  otherwise social decides.
\<close>

definition tieBreaker :: "'a Student_scheme \<Rightarrow> 'b Student_scheme \<Rightarrow> number" where
  "tieBreaker a b =
     (if scores a ''science'' \<noteq> scores b ''science''
        then js_sub (to_number (scores b ''science'')) (to_number (scores a ''science''))
      else if scores a ''math'' \<noteq> scores b ''math''
        then js_sub (to_number (scores b ''math'')) (to_number (scores a ''math''))
      else if scores a ''english'' \<noteq> scores b ''english''
        then js_sub (to_number (scores b ''english'')) (to_number (scores a ''english''))
      else if scores a ''thai'' \<noteq> scores b ''thai''
        then js_sub (to_number (scores b ''thai'')) (to_number (scores a ''thai''))
      else js_sub (to_number (scores b ''social'')) (to_number (scores a ''social'')))"

text \<open>The comparator passed to \<open>processed.sort\<close>.\<close>

definition sort_comparator :: "RankedStudent \<Rightarrow> RankedStudent \<Rightarrow> number" where
  "sort_comparator a b =
     (if strict_neq (totalScore b) (totalScore a)
        then js_sub (totalScore b) (totalScore a)
      else tieBreaker a b)"

text \<open>
  \<open>Array.prototype.sort\<close> with a comparator. The language treats a comparator result
  of \<open>NaN\<close> as \<open>+0\<close> (\<open>sort_compare\<close>), and the sort is stable: an element moves
  in front of another only when the comparator puts it strictly first. For a consistent
  comparator the result of a stable sort is unique, and it is what the insertion sort
  below computes; for an inconsistent comparator (one that returns \<open>NaN\<close>) the language
  leaves the order to the implementation, and the insertion sort is one such order. The
  theorems about the order assume the scores that keep the comparator consistent; the one
  that does not, \<open>sort_order_absent_key\<close>, is about a list on which every comparison
  of neighbours is a tie, so that the list stays as it is given.
\<close>

fun sort_compare :: "number \<Rightarrow> int" where
  "sort_compare NaN = 0"
| "sort_compare (Num v) = v"

fun insert_sorted :: "('a \<Rightarrow> 'a \<Rightarrow> number) \<Rightarrow> 'a \<Rightarrow> 'a list \<Rightarrow> 'a list" where
  "insert_sorted cmp x [] = [x]"
| "insert_sorted cmp x (y # ys) =
     (if sort_compare (cmp x y) \<le> 0 then x # y # ys else y # insert_sorted cmp x ys)"

definition array_sort :: "('a \<Rightarrow> 'a \<Rightarrow> number) \<Rightarrow> 'a list \<Rightarrow> 'a list" where
  "array_sort cmp xs = foldr (insert_sorted cmp) xs []"

text \<open>Step 1 of \<open>rankStudents\<close>: the spread copy with the three new fields.\<close>

definition with_total :: "Student \<Rightarrow> RankedStudent" where
  "with_total s =
     Student.extend s (RankedStudent.fields (calculateTotal s) 0 None)"

text \<open>Step 3: \<open>rank: index + 1\<close>.\<close>

definition assign_rank :: "RankedStudent list \<Rightarrow> RankedStudent list" where
  "assign_rank processed =
     map (\<lambda>(index, s). s\<lparr>rank := index + 1\<rparr>) (enumerate 0 processed)"

text \<open>
  Step 4: the two lookup objects \<open>quotaUsage\<close> and \<open>planQuotas\<close> are plain objects,
  modelled as maps from the names of their own properties to numbers. \<open>set_property\<close>
  is the assignment \<open>obj[key] = value\<close> of a number: it stores the property, except for
  the key \<open>__proto__\<close>, where the assignment of a number is ignored and nothing is
  stored. A read of a name that the object does not own gives \<open>undefined\<close> or a value
  that the object inherits (for \<open>__proto__\<close>, \<open>constructor\<close> and the like); the loop
  then compares the same inherited value with itself, which is false, so the model's
  \<open>None\<close> stands for both. The objects are filled by \<open>plans.forEach\<close> in list order,
  so a later plan overwrites an earlier plan of the same name.
\<close>

definition set_property :: "(string \<rightharpoonup> int) \<Rightarrow> string \<Rightarrow> int \<Rightarrow> (string \<rightharpoonup> int)" where
  "set_property obj key v = (if key = ''__proto__'' then obj else obj(key \<mapsto> v))"

definition init_quotaUsage :: "StudyPlan list \<Rightarrow> (string \<rightharpoonup> int)" where
  "init_quotaUsage plans = fold (\<lambda>p m. set_property m (name p) 0) plans Map.empty"

definition init_planQuotas :: "StudyPlan list \<Rightarrow> (string \<rightharpoonup> int)" where
  "init_planQuotas plans = fold (\<lambda>p m. set_property m (name p) (quota p)) plans Map.empty"

text \<open>
  The \<open>for ... of\<close> loop over one student's preferences. It returns \<open>assignedPlan\<close>
  and the usage counters as the loop leaves them. A comparison with \<open>undefined\<close>
  is false, so a name without a usage counter is passed over. The increment is reached
  only for a name that both objects own, so it is an ordinary property update.
\<close>

fun scan_preferences ::
  "(string \<rightharpoonup> int) \<Rightarrow> (string \<rightharpoonup> int) \<Rightarrow> string list \<Rightarrow> string option \<times> (string \<rightharpoonup> int)" where
  "scan_preferences planQuotas quotaUsage [] = (None, quotaUsage)"
| "scan_preferences planQuotas quotaUsage (planName # rest) =
     (case planQuotas planName of
        None \<Rightarrow> scan_preferences planQuotas quotaUsage rest
      | Some q \<Rightarrow>
          (case quotaUsage planName of
             None \<Rightarrow> scan_preferences planQuotas quotaUsage rest
           | Some currentUsage \<Rightarrow>
               if currentUsage < q
               then (Some planName, quotaUsage(planName \<mapsto> currentUsage + 1))
               else scan_preferences planQuotas quotaUsage rest))"

text \<open>
  The final \<open>processed.map\<close>: students are visited in array order and the usage
  counters are shared by all visits.
\<close>

fun allocate ::
  "(string \<rightharpoonup> int) \<Rightarrow> (string \<rightharpoonup> int) \<Rightarrow> RankedStudent list \<Rightarrow> RankedStudent list" where
  "allocate planQuotas quotaUsage [] = []"
| "allocate planQuotas quotaUsage (student # rest) =
     (case scan_preferences planQuotas quotaUsage (preferredStreams student) of
        (assignedPlan, quotaUsage') \<Rightarrow>
          student\<lparr>qualifiedStream := assignedPlan\<rparr> # allocate planQuotas quotaUsage' rest)"

text \<open>
  \<open>rankStudents\<close>: steps 1 to 3 give the ranked students (\<open>ranked\<close>), step 4
  allocates.
\<close>

definition ranked :: "Student list \<Rightarrow> RankedStudent list" where
  "ranked students = assign_rank (array_sort sort_comparator (map with_total students))"

definition rankStudents :: "Student list \<Rightarrow> StudyPlan list \<Rightarrow> RankedStudent list" where
  "rankStudents students plans =
     allocate (init_planQuotas plans) (init_quotaUsage plans) (ranked students)"

section \<open>Specification vocabulary\<close>

subsection \<open>Allocation\<close>

text \<open>
  \<open>has_space\<close> is the test that the preference loop makes for one name: the name has a
  quota and a usage counter, and the counter is below the quota. \<open>bump\<close> is the
  increment \<open>quotaUsage[planName]++\<close>.
\<close>

definition has_space :: "(string \<rightharpoonup> int) \<Rightarrow> (string \<rightharpoonup> int) \<Rightarrow> string \<Rightarrow> bool" where
  "has_space planQuotas quotaUsage t =
     (case planQuotas t of None \<Rightarrow> False
      | Some q \<Rightarrow> (case quotaUsage t of None \<Rightarrow> False | Some u \<Rightarrow> u < q))"

definition bump :: "(string \<rightharpoonup> int) \<Rightarrow> string \<Rightarrow> (string \<rightharpoonup> int)" where
  "bump quotaUsage t = (case quotaUsage t of None \<Rightarrow> quotaUsage | Some u \<Rightarrow> quotaUsage(t \<mapsto> u + 1))"

text \<open>The usage counters as \<open>allocate\<close> leaves them after it has visited a list of students.\<close>

fun usage_after :: "(string \<rightharpoonup> int) \<Rightarrow> (string \<rightharpoonup> int) \<Rightarrow> RankedStudent list \<Rightarrow> (string \<rightharpoonup> int)" where
  "usage_after planQuotas quotaUsage [] = quotaUsage"
| "usage_after planQuotas quotaUsage (student # rest) =
     usage_after planQuotas (snd (scan_preferences planQuotas quotaUsage (preferredStreams student))) rest"

text \<open>
  \<open>assigned_count t out\<close>: the number of students of \<open>out\<close> whose \<open>qualifiedStream\<close>
  is the track \<open>t\<close>.
\<close>

definition assigned_count :: "string \<Rightarrow> RankedStudent list \<Rightarrow> nat" where
  "assigned_count t out = length (filter (\<lambda>r. qualifiedStream r = Some t) out)"

text \<open>
  \<open>has_room plans out i t\<close>: the name \<open>t\<close> is a configured track with capacity left
  when the student at position \<open>i\<close> of the output is processed, that is, fewer students
  at the positions before \<open>i\<close> hold \<open>t\<close> than the quota that is held for \<open>t\<close>.
\<close>

definition has_room :: "StudyPlan list \<Rightarrow> RankedStudent list \<Rightarrow> nat \<Rightarrow> string \<Rightarrow> bool" where
  "has_room plans out i t =
     (case init_planQuotas plans t of None \<Rightarrow> False
      | Some q \<Rightarrow> int (assigned_count t (take i out)) < q)"

subsection \<open>Scores and order\<close>

text \<open>
  A student is \<open>well_scored\<close> when the five keys that the service reads are present.
  \<open>score_of\<close> reads a score with an absent key counting 0, and \<open>spec_total\<close> is the
  total as the specification words it: the sum of the scores over the configured subject
  keys, an absent key contributing 0.
\<close>

definition well_scored :: "'a Student_scheme \<Rightarrow> bool" where
  "well_scored s =
     list_all (\<lambda>k. scores s k \<noteq> None) [''math'', ''science'', ''thai'', ''english'', ''social'']"

definition score_of :: "'a Student_scheme \<Rightarrow> string \<Rightarrow> int" where
  "score_of s k = (case scores s k of None \<Rightarrow> 0 | Some v \<Rightarrow> v)"

definition spec_total :: "string list \<Rightarrow> 'a Student_scheme \<Rightarrow> int" where
  "spec_total subjects s = sum_list (map (score_of s) subjects)"

definition total_of :: "RankedStudent \<Rightarrow> int" where
  "total_of r = (case totalScore r of NaN \<Rightarrow> 0 | Num v \<Rightarrow> v)"

text \<open>
  The order as the specification words it: the keys of a student are the total score and
  then the scores for science, math, english, thai and social, and \<open>better\<close> compares two
  key lists from the top, every key descending, until one key differs.
\<close>

definition sort_keys :: "RankedStudent \<Rightarrow> int list" where
  "sort_keys r = [total_of r, score_of r ''science'', score_of r ''math'', score_of r ''english'',
     score_of r ''thai'', score_of r ''social'']"

fun better :: "int list \<Rightarrow> int list \<Rightarrow> bool" where
  "better (x # xs) (y # ys) = (x > y \<or> (x = y \<and> better xs ys))"
| "better _ _ = False"

text \<open>
  For the proofs: a ranked student is \<open>consistent\<close> when it carries the five scores and
  its total is the one \<open>calculateTotal\<close> gives, and \<open>neg_keys\<close> are the keys negated, so
  that the ascending lexicographic order of lists is the order of \<open>better\<close>.
\<close>

definition consistent :: "RankedStudent \<Rightarrow> bool" where
  "consistent r = (well_scored r \<and> totalScore r = calculateTotal r)"

definition neg_keys :: "RankedStudent \<Rightarrow> int list" where
  "neg_keys r = map uminus (sort_keys r)"

section \<open>Example inputs\<close>

text \<open>
  Three students, given in the order C, B, A. A and B have the total 370 and the same
  science score, and A has the higher math score; C has the total 320 and lists only a
  track \<open>Z\<close> that is not configured.
\<close>

definition example_student :: "string \<Rightarrow> string list \<Rightarrow> int \<Rightarrow> int \<Rightarrow> int \<Rightarrow> int \<Rightarrow> int \<Rightarrow> Student" where
  "example_student i prefs m s t e so =
     \<lparr>id' = i, title = ''Ms'', firstName = ''N'', lastName = ''L'', preferredStreams = prefs,
      scores = [''math'' \<mapsto> m, ''science'' \<mapsto> s, ''thai'' \<mapsto> t, ''english'' \<mapsto> e, ''social'' \<mapsto> so]\<rparr>"

definition example_plan :: "string \<Rightarrow> string \<Rightarrow> int \<Rightarrow> StudyPlan" where
  "example_plan i n q = \<lparr>plan_id = i, name = n, quota = q\<rparr>"

definition example_students :: "Student list" where
  "example_students =
     [example_student ''C'' [''Z''] 50 60 70 70 70,
      example_student ''B'' [''X'', ''Y''] 70 90 70 70 70,
      example_student ''A'' [''X'', ''Y''] 80 90 70 70 60]"

definition example_plans :: "StudyPlan list" where
  "example_plans = [example_plan ''1'' ''X'' 1, example_plan ''2'' ''Y'' 2]"

text \<open>The same two tracks, the first with capacity 0.\<close>

definition zero_capacity_plans :: "StudyPlan list" where
  "zero_capacity_plans = [example_plan ''1'' ''X'' 0, example_plan ''2'' ''Y'' 2]"

text \<open>Two plans of the same name, the second with the larger quota.\<close>

definition duplicate_plans :: "StudyPlan list" where
  "duplicate_plans = [example_plan ''1'' ''X'' 1, example_plan ''2'' ''X'' 2]"

text \<open>Two plans of the same name, the second with a negative quota.\<close>

definition negative_quota_plans :: "StudyPlan list" where
  "negative_quota_plans = [example_plan ''1'' ''X'' 1, example_plan ''2'' ''X'' (- 1)]"

text \<open>A student whose \<open>scores\<close> object has the keys math and science only.\<close>

definition two_subject_student :: Student where
  "two_subject_student =
     \<lparr>id' = ''S1'', title = ''Ms'', firstName = ''N'', lastName = ''L'', preferredStreams = [],
      scores = [''math'' \<mapsto> 80, ''science'' \<mapsto> 90]\<rparr>"

text \<open>
  Two students with all five scores, of the totals 1 and 3, and between them in the list
  a student whose \<open>scores\<close> object has the keys math and science only.
\<close>

definition partly_scored_students :: "Student list" where
  "partly_scored_students =
     [example_student ''S0'' [] 1 0 0 0 0,
      \<lparr>id' = ''S2'', title = ''Ms'', firstName = ''N'', lastName = ''L'', preferredStreams = [],
       scores = [''math'' \<mapsto> 80, ''science'' \<mapsto> 90]\<rparr>,
      example_student ''S1'' [] 3 0 0 0 0]"

text \<open>Three students with the same score on every subject.\<close>

definition three_tied :: "Student list" where
  "three_tied =
     [example_student ''A'' [] 70 70 70 70 70,
      example_student ''B'' [] 70 70 70 70 70,
      example_student ''C'' [] 70 70 70 70 70]"

section \<open>The store\<close>

text \<open>
  For the claim that \<open>rankStudents\<close> leaves its arguments as they were, the function is
  modelled a second time on an explicit store. A store is a list of cells and an address
  is an index into it. A cell is an array of addresses (JavaScript arrays hold references
  to their elements), a student object, a ranked-student object, a plan object, or one of
  the two lookup objects. The \<open>scores\<close> object and the \<open>preferredStreams\<close> array of a
  student are kept inside the student's cell: the source only reads them, so sharing them
  between the copies that the object spread makes has no effect a write could reveal.
\<close>

type_synonym addr = nat

datatype cell =
    Arr "addr list"
  | Obj_Student Student
  | Obj_Ranked RankedStudent
  | Obj_Plan StudyPlan
  | Obj_Record "string \<rightharpoonup> int"

type_synonym store = "cell list"

text \<open>
  Reading a cell, reading the elements of an array, creating a cell (at the next free
  address) and writing one in place. A read of a cell of the wrong kind, which well-typed
  input rules out, is the failure \<open>None\<close> of the functions below.
\<close>

definition lookup :: "store \<Rightarrow> addr \<Rightarrow> cell option" where
  "lookup h a = (if a < length h then Some (h ! a) else None)"

definition read_array :: "store \<Rightarrow> addr \<Rightarrow> addr list option" where
  "read_array h a = (case lookup h a of Some (Arr as) \<Rightarrow> Some as | _ \<Rightarrow> None)"

definition alloc :: "cell \<Rightarrow> store \<Rightarrow> addr \<times> store" where
  "alloc c h = (length h, h @ [c])"

definition overwrite :: "addr \<Rightarrow> cell \<Rightarrow> store \<Rightarrow> store" where
  "overwrite a c h = h[a := c]"

text \<open>
  \<open>students.map(s => ({...s, totalScore: calculateTotal(s), rank: 0, qualifiedStream: null}))\<close>:
  one new object per element; the elements themselves are only read.
\<close>

fun map_with_total :: "addr list \<Rightarrow> store \<Rightarrow> (addr list \<times> store) option" where
  "map_with_total [] h = Some ([], h)"
| "map_with_total (a # as) h =
     (case lookup h a of
        Some (Obj_Student s) \<Rightarrow>
          (case alloc (Obj_Ranked (with_total s)) h of
             (a', h1) \<Rightarrow> map_option (\<lambda>(as', h2). (a' # as', h2)) (map_with_total as h1))
      | _ \<Rightarrow> None)"

text \<open>
  \<open>processed.sort(...)\<close> sorts the array at address \<open>p\<close> in place: it reads the
  objects that the array refers to, orders the references by the comparator on those
  objects, and writes the reordered references back into the same cell.
\<close>

fun read_ranked :: "store \<Rightarrow> addr list \<Rightarrow> RankedStudent list option" where
  "read_ranked h [] = Some []"
| "read_ranked h (a # as) =
     (case lookup h a of
        Some (Obj_Ranked r) \<Rightarrow> map_option (\<lambda>rs. r # rs) (read_ranked h as)
      | _ \<Rightarrow> None)"

definition sort_in_place :: "addr \<Rightarrow> store \<Rightarrow> store option" where
  "sort_in_place p h =
     (case lookup h p of
        Some (Arr as) \<Rightarrow>
          map_option
            (\<lambda>rs. overwrite p (Arr (map fst (array_sort (\<lambda>x y. sort_comparator (snd x) (snd y)) (zip as rs)))) h)
            (read_ranked h as)
      | _ \<Rightarrow> None)"

text \<open>\<open>processed.map((s, index) => ({...s, rank: index + 1}))\<close>.\<close>

fun map_assign_rank :: "nat \<Rightarrow> addr list \<Rightarrow> store \<Rightarrow> (addr list \<times> store) option" where
  "map_assign_rank index [] h = Some ([], h)"
| "map_assign_rank index (a # as) h =
     (case lookup h a of
        Some (Obj_Ranked s) \<Rightarrow>
          (case alloc (Obj_Ranked (s\<lparr>rank := index + 1\<rparr>)) h of
             (a', h1) \<Rightarrow> map_option (\<lambda>(as', h2). (a' # as', h2)) (map_assign_rank (index + 1) as h1))
      | _ \<Rightarrow> None)"

text \<open>
  \<open>plans.forEach(p => { quotaUsage[p.name] = 0 })\<close> and
  \<open>plans.forEach(p => planQuotas[p.name] = p.quota)\<close>: each writes the lookup object
  at the given address.
\<close>

fun forEach_usage :: "addr \<Rightarrow> addr list \<Rightarrow> store \<Rightarrow> store option" where
  "forEach_usage quotaUsage [] h = Some h"
| "forEach_usage quotaUsage (a # as) h =
     (case lookup h a of
        Some (Obj_Plan p) \<Rightarrow>
          (case lookup h quotaUsage of
             Some (Obj_Record m) \<Rightarrow>
               forEach_usage quotaUsage as (overwrite quotaUsage (Obj_Record (set_property m (name p) 0)) h)
           | _ \<Rightarrow> None)
      | _ \<Rightarrow> None)"

fun forEach_quotas :: "addr \<Rightarrow> addr list \<Rightarrow> store \<Rightarrow> store option" where
  "forEach_quotas planQuotas [] h = Some h"
| "forEach_quotas planQuotas (a # as) h =
     (case lookup h a of
        Some (Obj_Plan p) \<Rightarrow>
          (case lookup h planQuotas of
             Some (Obj_Record m) \<Rightarrow>
               forEach_quotas planQuotas as
                 (overwrite planQuotas (Obj_Record (set_property m (name p) (quota p))) h)
           | _ \<Rightarrow> None)
      | _ \<Rightarrow> None)"

text \<open>
  The final \<open>processed.map\<close>: for each student the preference loop runs on the two
  lookup objects, the usage object is written back, and a new object with
  \<open>qualifiedStream\<close> set is created.
\<close>

fun map_allocate :: "addr \<Rightarrow> addr \<Rightarrow> addr list \<Rightarrow> store \<Rightarrow> (addr list \<times> store) option" where
  "map_allocate planQuotas quotaUsage [] h = Some ([], h)"
| "map_allocate planQuotas quotaUsage (a # as) h =
     (case lookup h a of
        Some (Obj_Ranked student) \<Rightarrow>
          (case lookup h planQuotas of
             Some (Obj_Record quotas) \<Rightarrow>
               (case lookup h quotaUsage of
                  Some (Obj_Record usage) \<Rightarrow>
                    (case scan_preferences quotas usage (preferredStreams student) of
                       (assignedPlan, usage') \<Rightarrow>
                         (case alloc (Obj_Ranked (student\<lparr>qualifiedStream := assignedPlan\<rparr>))
                                 (overwrite quotaUsage (Obj_Record usage') h) of
                            (a', h1) \<Rightarrow>
                              map_option (\<lambda>(as', h2). (a' # as', h2))
                                (map_allocate planQuotas quotaUsage as h1)))
                | _ \<Rightarrow> None)
           | _ \<Rightarrow> None)
      | _ \<Rightarrow> None)"

text \<open>
  \<open>rankStudents\<close> on the store, statement by statement; \<open>students\<close> and \<open>plans\<close> are
  the addresses of the two argument arrays, and the result is the address of the
  returned array with the store as the call leaves it.
\<close>

definition rankStudents_store :: "addr \<Rightarrow> addr \<Rightarrow> store \<Rightarrow> (addr \<times> store) option" where
  "rankStudents_store students plans h0 =
     do {
       ss \<leftarrow> read_array h0 students;
       (as1, h1) \<leftarrow> map_with_total ss h0;
       (processed, h2) \<leftarrow> Some (alloc (Arr as1) h1);
       h3 \<leftarrow> sort_in_place processed h2;
       as3 \<leftarrow> read_array h3 processed;
       (as4, h4) \<leftarrow> map_assign_rank 0 as3 h3;
       (processed', h5) \<leftarrow> Some (alloc (Arr as4) h4);
       (quotaUsage, h6) \<leftarrow> Some (alloc (Obj_Record Map.empty) h5);
       ps \<leftarrow> read_array h6 plans;
       h7 \<leftarrow> forEach_usage quotaUsage ps h6;
       (planQuotas, h8) \<leftarrow> Some (alloc (Obj_Record Map.empty) h7);
       ps' \<leftarrow> read_array h8 plans;
       h9 \<leftarrow> forEach_quotas planQuotas ps' h8;
       as5 \<leftarrow> read_array h9 processed';
       (as6, h10) \<leftarrow> map_allocate planQuotas quotaUsage as5 h9;
       Some (alloc (Arr as6) h10)
     }"

text \<open>
  What a store holds at an address: an array of student objects, of plans, or of ranked
  students, read as the list of these objects.
\<close>

definition holds_students :: "store \<Rightarrow> addr \<Rightarrow> Student list \<Rightarrow> bool" where
  "holds_students h a ss =
     (case lookup h a of
        Some (Arr as) \<Rightarrow> list_all2 (\<lambda>e s. lookup h e = Some (Obj_Student s)) as ss
      | _ \<Rightarrow> False)"

definition holds_plans :: "store \<Rightarrow> addr \<Rightarrow> StudyPlan list \<Rightarrow> bool" where
  "holds_plans h a ps =
     (case lookup h a of
        Some (Arr as) \<Rightarrow> list_all2 (\<lambda>e p. lookup h e = Some (Obj_Plan p)) as ps
      | _ \<Rightarrow> False)"

definition holds_ranked :: "store \<Rightarrow> addr \<Rightarrow> RankedStudent list \<Rightarrow> bool" where
  "holds_ranked h a rs =
     (case lookup h a of
        Some (Arr as) \<Rightarrow> list_all2 (\<lambda>e r. lookup h e = Some (Obj_Ranked r)) as rs
      | _ \<Rightarrow> False)"

text \<open>A store with two students, their array, one plan and the plans array.\<close>

definition example_store :: store where
  "example_store =
     [Obj_Student (example_student ''B'' [''X''] 70 90 70 70 70),
      Obj_Student (example_student ''A'' [''X''] 80 90 70 70 60),
      Arr [0, 1],
      Obj_Plan (example_plan ''1'' ''X'' 1),
      Arr [3]]"

section \<open>The allocation loop\<close>

lemma scan_skip: "\<not> has_space pq qu t \<Longrightarrow> scan_preferences pq qu (t # rest) = scan_preferences pq qu rest"
  by (simp add: has_space_def split: option.splits)

lemma scan_take: "has_space pq qu t \<Longrightarrow> scan_preferences pq qu (t # rest) = (Some t, bump qu t)"
  by (auto simp add: has_space_def bump_def split: option.splits)

lemma scan_cases:
  "(scan_preferences pq qu prefs = (None, qu) \<and> (\<forall>t \<in> set prefs. \<not> has_space pq qu t)) \<or>
   (\<exists>pre t post. prefs = pre @ t # post \<and> (\<forall>u \<in> set pre. \<not> has_space pq qu u) \<and> has_space pq qu t
      \<and> scan_preferences pq qu prefs = (Some t, bump qu t))"
proof (induction prefs)
  case Nil
  then show ?case by simp
next
  case (Cons a prefs)
  show ?case
  proof (cases "has_space pq qu a")
    case True
    then have "a # prefs = [] @ a # prefs \<and> (\<forall>u \<in> set []. \<not> has_space pq qu u) \<and> has_space pq qu a
      \<and> scan_preferences pq qu (a # prefs) = (Some a, bump qu a)"
      by (simp add: scan_take del: scan_preferences.simps)
    then show ?thesis by blast
  next
    case False
    from Cons.IH show ?thesis
    proof
      assume "scan_preferences pq qu prefs = (None, qu) \<and> (\<forall>t \<in> set prefs. \<not> has_space pq qu t)"
      with False show ?thesis by (simp add: scan_skip del: scan_preferences.simps)
    next
      assume "\<exists>pre t post. prefs = pre @ t # post \<and> (\<forall>u \<in> set pre. \<not> has_space pq qu u) \<and> has_space pq qu t
      \<and> scan_preferences pq qu prefs = (Some t, bump qu t)"
      then obtain pre t post where h: "prefs = pre @ t # post" "\<forall>u \<in> set pre. \<not> has_space pq qu u"
        "has_space pq qu t" "scan_preferences pq qu prefs = (Some t, bump qu t)" by blast
      from h False have "a # prefs = (a # pre) @ t # post \<and> (\<forall>u \<in> set (a # pre). \<not> has_space pq qu u) \<and> has_space pq qu t
      \<and> scan_preferences pq qu (a # prefs) = (Some t, bump qu t)"
        by (simp add: scan_skip del: scan_preferences.simps)
      then show ?thesis by blast
    qed
  qed
qed

lemma allocate_length: "length (allocate pq qu xs) = length xs"
  by (induction xs arbitrary: qu) (auto split: prod.splits)

lemma allocate_append:
  "allocate pq qu (xs @ ys) = allocate pq qu xs @ allocate pq (usage_after pq qu xs) ys"
  by (induction xs arbitrary: qu) (auto split: prod.splits)

lemma usage_after_count:
  "usage_after pq qu xs t = map_option (\<lambda>u. u + int (assigned_count t (allocate pq qu xs))) (qu t)"
proof (induction xs arbitrary: qu)
  case Nil
  then show ?case by (simp add: assigned_count_def option.map_ident)
next
  case (Cons s xs)
  from scan_cases[of pq qu "preferredStreams s"] show ?case
  proof (elim disjE conjE exE)
    assume "scan_preferences pq qu (preferredStreams s) = (None, qu)"
    then show ?thesis using Cons.IH[of qu] by (simp add: assigned_count_def)
  next
    fix pre u post
    assume h: "has_space pq qu u" "scan_preferences pq qu (preferredStreams s) = (Some u, bump qu u)"
    then obtain c where c: "qu u = Some c" by (auto simp: has_space_def split: option.splits)
    have b: "bump qu u t = (if t = u then Some (c + 1) else qu t)"
      using c by (simp add: bump_def)
    have "usage_after pq qu (s # xs) t = usage_after pq (bump qu u) xs t"
      using h by simp
    also have "\<dots> = map_option (\<lambda>v. v + int (assigned_count t (allocate pq (bump qu u) xs))) (bump qu u t)"
      by (rule Cons.IH)
    also have "\<dots> = map_option (\<lambda>v. v + int (assigned_count t (allocate pq qu (s # xs)))) (qu t)"
      using h c by (cases "qu t") (auto simp add: b assigned_count_def)
    finally show ?thesis .
  qed
qed

lemma init_planQuotas_snoc:
  "init_planQuotas (plans @ [p]) = set_property (init_planQuotas plans) (name p) (quota p)"
  by (simp add: init_planQuotas_def)

lemma init_quotaUsage_snoc:
  "init_quotaUsage (plans @ [p]) = set_property (init_quotaUsage plans) (name p) 0"
  by (simp add: init_quotaUsage_def)

lemma init_planQuotas_None:
  "(init_planQuotas plans t = None) = (t \<notin> name ` set plans \<or> t = ''__proto__'')"
proof (induction plans rule: rev_induct)
  case Nil
  then show ?case by (simp add: init_planQuotas_def)
next
  case (snoc p plans)
  then show ?case by (auto simp add: init_planQuotas_snoc set_property_def)
qed

lemma init_quotaUsage_apply:
  "init_quotaUsage plans t = (if t \<in> name ` set plans \<and> t \<noteq> ''__proto__'' then Some 0 else None)"
proof (induction plans rule: rev_induct)
  case Nil
  then show ?case by (simp add: init_quotaUsage_def)
next
  case (snoc p plans)
  then show ?case by (auto simp add: init_quotaUsage_snoc set_property_def)
qed

lemma init_planQuotas_last:
  "name p \<notin> name ` set post \<Longrightarrow> name p \<noteq> ''__proto__'' \<Longrightarrow>
   init_planQuotas (pre @ p # post) (name p) = Some (quota p)"
proof (induction post rule: rev_induct)
  case Nil
  then show ?case by (simp add: init_planQuotas_snoc set_property_def)
next
  case (snoc x post)
  have "pre @ p # post @ [x] = (pre @ p # post) @ [x]" by simp
  then have "init_planQuotas (pre @ p # post @ [x]) =
      set_property (init_planQuotas (pre @ p # post)) (name x) (quota x)"
    by (simp only: init_planQuotas_snoc)
  with snoc show ?case by (auto simp add: set_property_def)
qed

lemma allocate_take: "take i (allocate pq qu xs) = allocate pq qu (take i xs)"
proof -
  have "allocate pq qu (take i xs @ drop i xs) =
      allocate pq qu (take i xs) @ allocate pq (usage_after pq qu (take i xs)) (drop i xs)"
    by (rule allocate_append)
  then have "take i (allocate pq qu xs) =
      take i (allocate pq qu (take i xs) @ allocate pq (usage_after pq qu (take i xs)) (drop i xs))"
    by simp
  also have "\<dots> = allocate pq qu (take i xs)"
    by (cases "i \<le> length xs") (simp_all add: allocate_length)
  finally show ?thesis .
qed

lemma allocate_nth:
  assumes "i < length xs"
  shows "allocate pq qu xs ! i =
    (xs ! i)\<lparr>qualifiedStream := fst (scan_preferences pq (usage_after pq qu (take i xs)) (preferredStreams (xs ! i)))\<rparr>"
proof -
  have "allocate pq qu (take i xs @ (xs ! i) # drop (Suc i) xs) =
      allocate pq qu (take i xs) @ allocate pq (usage_after pq qu (take i xs)) ((xs ! i) # drop (Suc i) xs)"
    by (rule allocate_append)
  moreover have "take i xs @ (xs ! i) # drop (Suc i) xs = xs"
    using assms by (simp add: id_take_nth_drop [symmetric])
  ultimately have eq: "allocate pq qu xs =
      allocate pq qu (take i xs) @ allocate pq (usage_after pq qu (take i xs)) ((xs ! i) # drop (Suc i) xs)"
    by simp
  have len: "length (allocate pq qu (take i xs)) = i"
    using assms by (simp add: allocate_length)
  have "allocate pq qu xs ! i =
      (allocate pq qu (take i xs) @ allocate pq (usage_after pq qu (take i xs)) ((xs ! i) # drop (Suc i) xs)) ! i"
    using eq by simp
  also have "\<dots> = allocate pq (usage_after pq qu (take i xs)) ((xs ! i) # drop (Suc i) xs) ! 0"
    using len by (simp add: nth_append)
  finally show ?thesis by (simp add: case_prod_beta)
qed

lemma has_space_has_room:
  "has_space (init_planQuotas plans) (usage_after (init_planQuotas plans) (init_quotaUsage plans) (take i xs)) t
   = has_room plans (allocate (init_planQuotas plans) (init_quotaUsage plans) xs) i t"
proof (cases "init_planQuotas plans t")
  case None
  then show ?thesis by (simp add: has_space_def has_room_def)
next
  case (Some q)
  then have "t \<in> name ` set plans \<and> t \<noteq> ''__proto__''"
    using init_planQuotas_None[of plans t] by auto
  then have "init_quotaUsage plans t = Some 0" by (simp add: init_quotaUsage_apply)
  then show ?thesis using Some
    by (simp add: has_space_def has_room_def usage_after_count allocate_take)
qed

lemma count_bound:
  "pq t = Some q \<Longrightarrow> qu t = Some u \<Longrightarrow> int (assigned_count t (allocate pq qu xs)) \<le> max 0 (q - u)"
proof (induction xs arbitrary: qu u)
  case Nil
  then show ?case by (simp add: assigned_count_def)
next
  case (Cons s xs)
  from scan_cases[of pq qu "preferredStreams s"] show ?case
  proof (elim disjE conjE exE)
    assume "scan_preferences pq qu (preferredStreams s) = (None, qu)"
    then show ?thesis using Cons.IH[of qu u] Cons.prems by (simp add: assigned_count_def)
  next
    fix pre v post
    assume h: "has_space pq qu v" "scan_preferences pq qu (preferredStreams s) = (Some v, bump qu v)"
    show ?thesis
    proof (cases "v = t")
      case True
      with h Cons.prems have lt: "u < q" by (simp add: has_space_def)
      have "bump qu t t = Some (u + 1)" using Cons.prems by (simp add: bump_def)
      then have "int (assigned_count t (allocate pq (bump qu t) xs)) \<le> max 0 (q - (u + 1))"
        using Cons.IH[of "bump qu t" "u + 1"] Cons.prems(1) by simp
      moreover have "assigned_count t (allocate pq qu (s # xs)) = Suc (assigned_count t (allocate pq (bump qu t) xs))"
        using h True by (simp add: assigned_count_def)
      ultimately show ?thesis using lt by simp
    next
      case False
      from h obtain c where c: "qu v = Some c" by (auto simp: has_space_def split: option.splits)
      have "bump qu v t = Some u" using Cons.prems False c by (simp add: bump_def)
      then have "int (assigned_count t (allocate pq (bump qu v) xs)) \<le> max 0 (q - u)"
        using Cons.IH[of "bump qu v" u] Cons.prems(1) by simp
      moreover have "assigned_count t (allocate pq qu (s # xs)) = assigned_count t (allocate pq (bump qu v) xs)"
        using h False by (simp add: assigned_count_def)
      ultimately show ?thesis by simp
    qed
  qed
qed

lemma count_unknown:
  "pq t = None \<Longrightarrow> assigned_count t (allocate pq qu xs) = 0"
proof (induction xs arbitrary: qu)
  case Nil
  then show ?case by (simp add: assigned_count_def)
next
  case (Cons s xs)
  from scan_cases[of pq qu "preferredStreams s"] show ?case
  proof (elim disjE conjE exE)
    assume "scan_preferences pq qu (preferredStreams s) = (None, qu)"
    then show ?thesis using Cons.IH[of qu] Cons.prems by (simp add: assigned_count_def)
  next
    fix pre v post
    assume h: "has_space pq qu v" "scan_preferences pq qu (preferredStreams s) = (Some v, bump qu v)"
    then have "v \<noteq> t" using Cons.prems by (auto simp: has_space_def)
    then show ?thesis using h Cons.IH[of "bump qu v"] Cons.prems by (simp add: assigned_count_def)
  qed
qed

section \<open>The sort\<close>

text \<open>
  When the five keys are the configured ones and all are present, \<open>calculateTotal\<close>
  computes the total of the specification.
\<close>

lemma calculateTotal_well_scored:
  "well_scored s \<Longrightarrow> calculateTotal s =
     Num (spec_total [''math'', ''science'', ''thai'', ''english'', ''social''] s)"
  by (auto simp add: well_scored_def calculateTotal_def score_of_def spec_total_def)

lemma comparator_le:
  assumes "consistent a" "consistent b"
  shows "(sort_compare (sort_comparator a b) \<le> 0) = (neg_keys a \<le> neg_keys b)"
proof -
  from assms obtain ma sa ta ea oa where a: "scores a ''math'' = Some ma" "scores a ''science'' = Some sa"
     "scores a ''thai'' = Some ta" "scores a ''english'' = Some ea" "scores a ''social'' = Some oa"
    by (auto simp: consistent_def well_scored_def)
  from assms obtain mb sb tb eb ob where b: "scores b ''math'' = Some mb" "scores b ''science'' = Some sb"
     "scores b ''thai'' = Some tb" "scores b ''english'' = Some eb" "scores b ''social'' = Some ob"
    by (auto simp: consistent_def well_scored_def)
  have ta: "totalScore a = Num (ma + sa + ta + ea + oa)"
    using assms(1) a by (simp add: consistent_def calculateTotal_def)
  have tb: "totalScore b = Num (mb + sb + tb + eb + ob)"
    using assms(2) b by (simp add: consistent_def calculateTotal_def)
  show ?thesis
    by (simp add: sort_comparator_def tieBreaker_def neg_keys_def sort_keys_def total_of_def score_of_def a b ta tb)
      (auto)
qed

lemma insert_sorted_insort:
  "consistent y \<Longrightarrow> \<forall>x \<in> set xs. consistent x \<Longrightarrow>
   insert_sorted sort_comparator y xs = insort_key neg_keys y xs"
  by (induction xs) (simp_all add: comparator_le)

lemma array_sort_sort_key:
  "\<forall>x \<in> set xs. consistent x \<Longrightarrow> array_sort sort_comparator xs = sort_key neg_keys xs"
proof (induction xs)
  case Nil
  then show ?case by (simp add: array_sort_def)
next
  case (Cons y xs)
  then have ih: "array_sort sort_comparator xs = sort_key neg_keys xs" by simp
  have "array_sort sort_comparator (y # xs) = insert_sorted sort_comparator y (array_sort sort_comparator xs)"
    by (simp add: array_sort_def)
  also have "\<dots> = insort_key neg_keys y (sort_key neg_keys xs)"
    using Cons.prems by (simp add: ih insert_sorted_insort)
  finally show ?case by simp
qed

text \<open>
  On such students the insertion sort is the one stable sort there is: every stable,
  sorted rearrangement of the list is its result.
\<close>

lemma stable_sort_unique:
  assumes "\<forall>x \<in> set xs. consistent x" and "mset ys = mset xs"
    and "\<And>k. k \<in> set ys \<Longrightarrow>
           filter (\<lambda>x. neg_keys k = neg_keys x) ys = filter (\<lambda>x. neg_keys k = neg_keys x) xs"
    and "sorted (map neg_keys ys)"
  shows "array_sort sort_comparator xs = ys"
proof -
  have "sort_key neg_keys xs = ys"
    using assms(2,3,4) by (rule properties_for_sort_key)
  then show ?thesis using assms(1) by (simp add: array_sort_sort_key)
qed

lemma mset_insert_sorted: "mset (insert_sorted cmp x ys) = add_mset x (mset ys)"
  by (induction ys) simp_all

lemma mset_array_sort: "mset (array_sort cmp xs) = mset xs"
  by (induction xs) (simp_all add: array_sort_def mset_insert_sorted)

lemma length_array_sort: "length (array_sort cmp xs) = length xs"
  by (metis mset_array_sort size_mset)

lemma set_array_sort: "set (array_sort cmp xs) = set xs"
  by (metis mset_array_sort set_mset_mset)

lemma consistent_with_total: "well_scored s \<Longrightarrow> consistent (with_total s)"
  by (simp add: consistent_def with_total_def well_scored_def calculateTotal_def
      Student.extend_def RankedStudent.fields_def)

lemma length_assign_rank: "length (assign_rank xs) = length xs"
  by (simp add: assign_rank_def)

lemma assign_rank_nth: "i < length xs \<Longrightarrow> assign_rank xs ! i = (xs ! i)\<lparr>rank := i + 1\<rparr>"
  by (simp add: assign_rank_def nth_enumerate_eq)

lemma length_ranked: "length (ranked students) = length students"
  by (simp add: ranked_def length_assign_rank length_array_sort)

lemma length_rankStudents: "length (rankStudents students plans) = length students"
  by (simp add: rankStudents_def allocate_length length_ranked)

lemma rankStudents_nth:
  assumes "i < length students"
  shows "rankStudents students plans ! i =
     (array_sort sort_comparator (map with_total students) ! i)
       \<lparr>rank := i + 1, qualifiedStream := qualifiedStream (rankStudents students plans ! i)\<rparr>"
proof -
  let ?sorted = "array_sort sort_comparator (map with_total students)"
  have l: "i < length ?sorted" using assms by (simp add: length_array_sort)
  then have "i < length (ranked students)" by (simp add: ranked_def length_assign_rank)
  then have "rankStudents students plans ! i =
     (ranked students ! i)\<lparr>qualifiedStream := qualifiedStream (rankStudents students plans ! i)\<rparr>"
    by (simp add: rankStudents_def allocate_nth)
  moreover have "ranked students ! i = (?sorted ! i)\<lparr>rank := i + 1\<rparr>"
    using l by (simp add: ranked_def assign_rank_nth)
  ultimately show ?thesis by simp
qed

lemma rank_nth: "i < length students \<Longrightarrow> rank (rankStudents students plans ! i) = i + 1"
  by (subst rankStudents_nth) simp_all

lemmas run_defs = rankStudents_def ranked_def with_total_def calculateTotal_def array_sort_def
  sort_comparator_def tieBreaker_def assign_rank_def init_planQuotas_def init_quotaUsage_def
  set_property_def
  Student.extend_def RankedStudent.fields_def enumerate_eq_zip
  example_student_def example_plan_def example_students_def example_plans_def duplicate_plans_def
  zero_capacity_plans_def

lemma example_run:
  "map id' (rankStudents example_students example_plans) = [''A'', ''B'', ''C'']"
  "map qualifiedStream (rankStudents example_students example_plans) = [Some ''X'', Some ''Y'', None]"
  "map preferredStreams (rankStudents example_students example_plans) = [[''X'', ''Y''], [''X'', ''Y''], [''Z'']]"
  by (simp_all add: run_defs)

lemma duplicate_run:
  "map qualifiedStream (rankStudents example_students duplicate_plans) = [Some ''X'', Some ''X'', None]"
  by (simp_all add: run_defs)

lemma rankStudents_has_room:
  assumes "i < length students"
  shows "qualifiedStream (rankStudents students plans ! i) =
     fst (scan_preferences (init_planQuotas plans)
            (usage_after (init_planQuotas plans) (init_quotaUsage plans) (take i (ranked students)))
            (preferredStreams (rankStudents students plans ! i)))"
  using assms by (simp add: rankStudents_def allocate_nth length_ranked)

lemma assigned_from_scan:
  assumes "i < length students" and "out = rankStudents students plans"
  shows "(qualifiedStream (out ! i) = None \<and> (\<forall>t \<in> set (preferredStreams (out ! i)). \<not> has_room plans out i t)) \<or>
     (\<exists>pre t post. preferredStreams (out ! i) = pre @ t # post \<and>
        (\<forall>u \<in> set pre. \<not> has_room plans out i u) \<and> has_room plans out i t \<and>
        qualifiedStream (out ! i) = Some t)"
proof -
  let ?pq = "init_planQuotas plans"
  let ?qu = "usage_after ?pq (init_quotaUsage plans) (take i (ranked students))"
  have room: "has_space ?pq ?qu t = has_room plans out i t" for t
    by (simp add: assms(2) rankStudents_def has_space_has_room)
  have q: "qualifiedStream (out ! i) = fst (scan_preferences ?pq ?qu (preferredStreams (out ! i)))"
    using assms by (simp add: rankStudents_has_room)
  from scan_cases[of ?pq ?qu "preferredStreams (out ! i)"] show ?thesis
  proof (elim disjE conjE exE)
    assume "scan_preferences ?pq ?qu (preferredStreams (out ! i)) = (None, ?qu)"
      "\<forall>t \<in> set (preferredStreams (out ! i)). \<not> has_space ?pq ?qu t"
    then show ?thesis using q by (simp add: room)
  next
    fix pre t post
    assume "preferredStreams (out ! i) = pre @ t # post" "\<forall>u \<in> set pre. \<not> has_space ?pq ?qu u"
      "has_space ?pq ?qu t" "scan_preferences ?pq ?qu (preferredStreams (out ! i)) = (Some t, bump ?qu t)"
    then have "preferredStreams (out ! i) = pre @ t # post \<and>
        (\<forall>u \<in> set pre. \<not> has_room plans out i u) \<and> has_room plans out i t \<and>
        qualifiedStream (out ! i) = Some t"
      using q by (simp add: room)
    then show ?thesis by blast
  qed
qed

lemma rankStudents_count_bound:
  assumes "init_planQuotas plans t = Some q"
  shows "int (assigned_count t (rankStudents students plans)) \<le> max 0 q"
proof -
  from assms have "t \<in> name ` set plans \<and> t \<noteq> ''__proto__''"
    using init_planQuotas_None[of plans t] by auto
  then have "init_quotaUsage plans t = Some 0" by (simp add: init_quotaUsage_apply)
  with assms show ?thesis
    using count_bound[of "init_planQuotas plans" t q "init_quotaUsage plans" 0 "ranked students"]
    by (simp add: rankStudents_def)
qed

lemma last_of_name_count_bound:
  assumes "plans = pre @ p # post" and "name p \<notin> name ` set post"
  shows "int (assigned_count (name p) (rankStudents students plans)) \<le> max 0 (quota p)"
proof (cases "name p = ''__proto__''")
  case True
  then have "init_planQuotas plans (name p) = None" by (simp add: init_planQuotas_None)
  then have "assigned_count (name p) (rankStudents students plans) = 0"
    by (simp add: rankStudents_def count_unknown)
  then show ?thesis by simp
next
  case False
  with assms have "init_planQuotas plans (name p) = Some (quota p)"
    by (simp add: init_planQuotas_last)
  then show ?thesis by (rule rankStudents_count_bound)
qed

text \<open>When the names are unique, every track of the list is the last of its name.\<close>

lemma capacity_unique_names:
  assumes "distinct (map name plans)" and "p \<in> set plans" and "0 \<le> quota p"
  shows "int (assigned_count (name p) (rankStudents students plans)) \<le> quota p"
proof -
  from assms(2) obtain pre post where sp: "plans = pre @ p # post"
    by (auto simp: in_set_conv_decomp)
  with assms(1) have "name p \<notin> name ` set post" by auto
  from last_of_name_count_bound[OF sp this, of students] assms(3) show ?thesis by simp
qed

lemma assigned_count_map:
  "assigned_count t out = length (filter (\<lambda>q. q = Some t) (map qualifiedStream out))"
  by (simp add: assigned_count_def filter_map comp_def)

lemma assigned_count_zero: "(assigned_count t out = 0) = (\<forall>r \<in> set out. qualifiedStream r \<noteq> Some t)"
  by (simp add: assigned_count_def filter_empty_conv)



section \<open>Capacity\<close>

text \<open>
  Claim C1 (capacity invariant), as amended. For every list of students and every list
  of track definitions, every track \<open>p\<close> of the list that has a capacity of at least 0
  and is followed in the list by no track of the same name (every track of the list, when
  the names are unique) is the \<open>qualifiedStream\<close> of at most \<open>quota p\<close> students in the
  output of \<open>rankStudents\<close>; such a track of capacity 0 is assigned to no student.
\<close>

theorem capacity_invariant:
  assumes "plans = pre @ p # post" and "name p \<notin> name ` set post" and "0 \<le> quota p"
  shows "int (assigned_count (name p) (rankStudents students plans)) \<le> quota p \<and>
         (quota p = 0 \<longrightarrow> (\<forall>r \<in> set (rankStudents students plans). qualifiedStream r \<noteq> Some (name p)))"
proof -
  have "int (assigned_count (name p) (rankStudents students plans)) \<le> max 0 (quota p)"
    using assms(1,2) by (rule last_of_name_count_bound)
  with assms(3) have b: "int (assigned_count (name p) (rankStudents students plans)) \<le> quota p" by simp
  then have "quota p = 0 \<longrightarrow> assigned_count (name p) (rankStudents students plans) = 0" by simp
  with b show ?thesis by (simp add: assigned_count_zero)
qed

theorem capacity_invariant_witness:
  "example_plans = [] @ example_plan ''1'' ''X'' 1 # [example_plan ''2'' ''Y'' 2] \<and>
   name (example_plan ''1'' ''X'' 1) \<notin> name ` set [example_plan ''2'' ''Y'' 2] \<and>
   0 \<le> quota (example_plan ''1'' ''X'' 1) \<and>
   assigned_count ''X'' (rankStudents example_students example_plans) = 1 \<and>
   int (assigned_count (name (example_plan ''1'' ''X'' 1)) (rankStudents example_students example_plans))
     \<le> quota (example_plan ''1'' ''X'' 1) \<and>
   zero_capacity_plans = [] @ example_plan ''1'' ''X'' 0 # [example_plan ''2'' ''Y'' 2] \<and>
   quota (example_plan ''1'' ''X'' 0) = 0 \<and>
   map preferredStreams (rankStudents example_students zero_capacity_plans) =
     [[''X'', ''Y''], [''X'', ''Y''], [''Z'']] \<and>
   assigned_count ''X'' (rankStudents example_students zero_capacity_plans) = 0"
proof -
  have h1: "example_plans = [] @ example_plan ''1'' ''X'' 1 # [example_plan ''2'' ''Y'' 2]"
    by (simp add: example_plans_def)
  have h2: "name (example_plan ''1'' ''X'' 1) \<notin> name ` set [example_plan ''2'' ''Y'' 2]"
    by (simp add: example_plan_def)
  have h3: "0 \<le> quota (example_plan ''1'' ''X'' 1)" by (simp add: example_plan_def)
  have c: "assigned_count ''X'' (rankStudents example_students example_plans) = 1"
    by (simp add: assigned_count_map example_run(2))
  have z1: "zero_capacity_plans = [] @ example_plan ''1'' ''X'' 0 # [example_plan ''2'' ''Y'' 2]"
    by (simp add: zero_capacity_plans_def)
  have z2: "name (example_plan ''1'' ''X'' 0) \<notin> name ` set [example_plan ''2'' ''Y'' 2]"
    by (simp add: example_plan_def)
  have z3: "0 \<le> quota (example_plan ''1'' ''X'' 0)" and z4: "quota (example_plan ''1'' ''X'' 0) = 0"
    by (simp_all add: example_plan_def)
  have z5: "name (example_plan ''1'' ''X'' 0) = ''X''" by (simp add: example_plan_def)
  have p: "map preferredStreams (rankStudents example_students zero_capacity_plans) =
     [[''X'', ''Y''], [''X'', ''Y''], [''Z'']]"
    by (simp add: run_defs)
  from capacity_invariant[OF z1 z2 z3, of example_students] z4 z5
  have "\<forall>r \<in> set (rankStudents example_students zero_capacity_plans). qualifiedStream r \<noteq> Some ''X''"
    by simp
  then have z: "assigned_count ''X'' (rankStudents example_students zero_capacity_plans) = 0"
    by (simp add: assigned_count_zero)
  show ?thesis
    using capacity_invariant[OF h1 h2 h3, of example_students] h1 h2 h3 c z1 z4 p z by simp
qed

text \<open>
  Without the condition on later tracks the bound fails: in the list of two tracks named
  \<open>X\<close> with the capacities 1 and 2, the first track has capacity 1 and two students are
  assigned \<open>X\<close>.
\<close>

theorem capacity_duplicate_names_counterexample:
  "example_plan ''1'' ''X'' 1 \<in> set duplicate_plans \<and>
   map quota duplicate_plans = [1, 2] \<and>
   assigned_count (name (example_plan ''1'' ''X'' 1)) (rankStudents example_students duplicate_plans) = 2 \<and>
   \<not> int (assigned_count (name (example_plan ''1'' ''X'' 1)) (rankStudents example_students duplicate_plans))
       \<le> quota (example_plan ''1'' ''X'' 1)"
proof -
  have n: "name (example_plan ''1'' ''X'' 1) = ''X''" "quota (example_plan ''1'' ''X'' 1) = 1"
    by (simp_all add: example_plan_def)
  have c: "assigned_count ''X'' (rankStudents example_students duplicate_plans) = 2"
    by (simp add: assigned_count_map duplicate_run)
  show ?thesis
    by (simp add: n c) (simp add: duplicate_plans_def example_plan_def)
qed

lemma first_preference_taken:
  assumes "out = rankStudents students plans" and "i < length out"
    and "preferredStreams (out ! i) = t # rest" and "has_room plans out i t"
  shows "qualifiedStream (out ! i) = Some t"
proof -
  have li: "i < length students" using assms(1,2) by (simp add: length_rankStudents)
  from assigned_from_scan[OF li assms(1)] show ?thesis
  proof (elim disjE conjE exE)
    assume "\<forall>t \<in> set (preferredStreams (out ! i)). \<not> has_room plans out i t"
    with assms(3,4) show ?thesis by simp
  next
    fix pre v post
    assume h: "preferredStreams (out ! i) = pre @ v # post" "\<forall>u \<in> set pre. \<not> has_room plans out i u"
      "has_room plans out i v" "qualifiedStream (out ! i) = Some v"
    show ?thesis
    proof (cases pre)
      case Nil
      with h(1) assms(3) have "v = t" by simp
      with h(4) show ?thesis by simp
    next
      case (Cons a pre')
      with h(1) assms(3) have "a = t" by simp
      with Cons h(2) assms(4) show ?thesis by simp
    qed
  qed
qed

lemma assigned_has_room:
  assumes "out = rankStudents students plans" and "i < length out"
    and "qualifiedStream (out ! i) = Some t"
  shows "has_room plans out i t"
proof -
  have li: "i < length students" using assms(1,2) by (simp add: length_rankStudents)
  from assigned_from_scan[OF li assms(1)] assms(3) show ?thesis by auto
qed


section \<open>Fairness\<close>


lemma example_out:
  "length (rankStudents example_students example_plans) = 3"
  "preferredStreams (rankStudents example_students example_plans ! 0) = [''X'', ''Y'']"
  "preferredStreams (rankStudents example_students example_plans ! Suc 0) = [''X'', ''Y'']"
  "preferredStreams (rankStudents example_students example_plans ! 2) = [''Z'']"
  "qualifiedStream (rankStudents example_students example_plans ! 0) = Some ''X''"
  "qualifiedStream (rankStudents example_students example_plans ! Suc 0) = Some ''Y''"
  "qualifiedStream (rankStudents example_students example_plans ! 2) = None"
proof -
  let ?out = "rankStudents example_students example_plans"
  show l: "length ?out = 3" by (simp add: length_rankStudents example_students_def)
  have "map preferredStreams ?out ! 0 = [''X'', ''Y'']" "map preferredStreams ?out ! Suc 0 = [''X'', ''Y'']"
    "map preferredStreams ?out ! 2 = [''Z'']"
    by (simp_all add: example_run(3))
  then show "preferredStreams (?out ! 0) = [''X'', ''Y'']" "preferredStreams (?out ! Suc 0) = [''X'', ''Y'']"
    "preferredStreams (?out ! 2) = [''Z'']"
    using l by simp_all
  have "map qualifiedStream ?out ! 0 = Some ''X''" "map qualifiedStream ?out ! Suc 0 = Some ''Y''"
    "map qualifiedStream ?out ! 2 = None"
    by (simp_all add: example_run(2))
  then show "qualifiedStream (?out ! 0) = Some ''X''" "qualifiedStream (?out ! Suc 0) = Some ''Y''"
    "qualifiedStream (?out ! 2) = None"
    using l by simp_all
qed


section \<open>Preferences\<close>



text \<open>
  Claim C8 (malformed preferences). The allocator has no failure branch. A preference
  that names no configured track is passed over by the scan, with the usage counters
  as they were, and no student is ever assigned such a name. A student at position
  \<open>i\<close> whose preferences all lack room (because the list is empty, or names only unknown or
  full tracks) is left with \<open>qualifiedStream\<close> unset, whatever capacity remains in tracks
  the student did not list; every input student still appears in the output.
\<close>

theorem unknown_preferences_ignored:
  assumes "out = rankStudents students plans" and "t \<notin> name ` set plans" and "i < length out"
    and "\<forall>u \<in> set (preferredStreams (out ! i)). \<not> has_room plans out i u"
  shows "scan_preferences (init_planQuotas plans) quotaUsage (t # rest) =
           scan_preferences (init_planQuotas plans) quotaUsage rest \<and>
         assigned_count t out = 0 \<and>
         qualifiedStream (out ! i) = None \<and>
         length out = length students"
proof -
  have none: "init_planQuotas plans t = None" using assms(2) by (simp add: init_planQuotas_None)
  then have a: "scan_preferences (init_planQuotas plans) quotaUsage (t # rest) =
           scan_preferences (init_planQuotas plans) quotaUsage rest" by simp
  have b: "assigned_count t out = 0" using none by (simp add: assms(1) rankStudents_def count_unknown)
  have n: "length out = length students" by (simp add: assms(1) length_rankStudents)
  then have li: "i < length students" using assms(3) by simp
  from assigned_from_scan[OF li assms(1)] assms(4) have "qualifiedStream (out ! i) = None"
    by auto
  with a b n show ?thesis by simp
qed

theorem unknown_preferences_ignored_witness:
  "''Z'' \<notin> name ` set example_plans \<and> 2 < length (rankStudents example_students example_plans) \<and>
   preferredStreams (rankStudents example_students example_plans ! 2) = [''Z''] \<and>
   \<not> has_room example_plans (rankStudents example_students example_plans) 2 ''Z'' \<and>
   has_room example_plans (rankStudents example_students example_plans) 2 ''Y'' \<and>
   qualifiedStream (rankStudents example_students example_plans ! 2) = None \<and>
   assigned_count ''Z'' (rankStudents example_students example_plans) = 0"
proof -
  let ?out = "rankStudents example_students example_plans"
  have h2: "''Z'' \<notin> name ` set example_plans" by (simp add: example_plans_def example_plan_def)
  have h3: "2 < length ?out" by (simp add: example_out(1))
  have z: "\<not> has_room example_plans ?out 2 ''Z''"
    using h2 by (simp add: has_room_def init_planQuotas_None[THEN iffD2])
  then have h4: "\<forall>u \<in> set (preferredStreams (?out ! 2)). \<not> has_room example_plans ?out 2 u"
    by (simp add: example_out)
  have "take 2 (map qualifiedStream ?out) = [Some ''X'', Some ''Y'']" by (simp add: example_run(2))
  then have "assigned_count ''Y'' (take 2 ?out) = 1" by (simp add: assigned_count_map take_map)
  moreover have "init_planQuotas example_plans ''Y'' = Some 2"
    by (simp add: init_planQuotas_def set_property_def example_plans_def example_plan_def)
  ultimately have y: "has_room example_plans ?out 2 ''Y''" by (simp add: has_room_def)
  from unknown_preferences_ignored[OF refl h2 h3 h4] h2 h3 z y show ?thesis
    by (simp add: example_out)
qed

text \<open>
  Claim C10 (duplicate track names), as amended. Let several plans of the list carry the
  same name, and let \<open>p\<close> be the last of them. Unless the name is \<open>__proto__\<close> (which
  the lookup objects never store, so that it is never assigned), the quota of \<open>p\<close> is the
  one the allocator holds for the name, and the name has one usage counter, started at 0.
  That quota governs every allocation of the name: a student receives the name only while
  fewer students hold it than the quota of \<open>p\<close>, and a student whose first preference
  it is receives it whenever that is so. Hence the students assigned to the name never
  outnumber the last-listed quota, or 0 when that quota is negative.
\<close>

theorem duplicate_names_last_quota:
  assumes "plans = pre @ p # post" and "name p \<notin> name ` set post"
    and "out = rankStudents students plans"
  shows "(name p \<noteq> ''__proto__'' \<longrightarrow>
            init_planQuotas plans (name p) = Some (quota p) \<and>
            init_quotaUsage plans (name p) = Some 0) \<and>
         (i < length out \<and> qualifiedStream (out ! i) = Some (name p) \<longrightarrow>
            int (assigned_count (name p) (take i out)) < quota p) \<and>
         (i < length out \<and> name p \<noteq> ''__proto__'' \<and> preferredStreams (out ! i) = name p # rest \<and>
          int (assigned_count (name p) (take i out)) < quota p \<longrightarrow>
            qualifiedStream (out ! i) = Some (name p)) \<and>
         int (assigned_count (name p) out) \<le> max 0 (quota p)"
proof (intro conjI impI)
  assume "name p \<noteq> ''__proto__''"
  then show "init_planQuotas plans (name p) = Some (quota p)"
    using assms(1,2) by (simp add: init_planQuotas_last)
next
  assume "name p \<noteq> ''__proto__''"
  then show "init_quotaUsage plans (name p) = Some 0"
    using assms(1) by (simp add: init_quotaUsage_apply)
next
  assume a: "i < length out \<and> qualifiedStream (out ! i) = Some (name p)"
  then have room: "has_room plans out i (name p)"
    using assigned_has_room[OF assms(3)] by blast
  then have "init_planQuotas plans (name p) \<noteq> None"
    by (auto simp: has_room_def split: option.splits)
  then have "name p \<noteq> ''__proto__''" by (simp add: init_planQuotas_None)
  then have "init_planQuotas plans (name p) = Some (quota p)"
    using assms(1,2) by (simp add: init_planQuotas_last)
  with room show "int (assigned_count (name p) (take i out)) < quota p"
    by (simp add: has_room_def)
next
  assume a: "i < length out \<and> name p \<noteq> ''__proto__'' \<and> preferredStreams (out ! i) = name p # rest \<and>
          int (assigned_count (name p) (take i out)) < quota p"
  then have "init_planQuotas plans (name p) = Some (quota p)"
    using assms(1,2) by (simp add: init_planQuotas_last)
  with a have "has_room plans out i (name p)" by (simp add: has_room_def)
  with a show "qualifiedStream (out ! i) = Some (name p)"
    using first_preference_taken[OF assms(3)] by blast
next
  show "int (assigned_count (name p) out) \<le> max 0 (quota p)"
    unfolding assms(3) using assms(1,2) by (rule last_of_name_count_bound)
qed

theorem duplicate_names_last_quota_witness:
  "duplicate_plans = [example_plan ''1'' ''X'' 1] @ example_plan ''2'' ''X'' 2 # [] \<and>
   name (example_plan ''2'' ''X'' 2) \<noteq> ''__proto__'' \<and>
   init_planQuotas duplicate_plans ''X'' = Some 2 \<and>
   init_quotaUsage duplicate_plans ''X'' = Some 0 \<and>
   Suc 0 < length (rankStudents example_students duplicate_plans) \<and>
   preferredStreams (rankStudents example_students duplicate_plans ! Suc 0) = ''X'' # [''Y''] \<and>
   assigned_count ''X'' (take (Suc 0) (rankStudents example_students duplicate_plans)) = 1 \<and>
   qualifiedStream (rankStudents example_students duplicate_plans ! Suc 0) = Some ''X'' \<and>
   assigned_count ''X'' (rankStudents example_students duplicate_plans) = 2 \<and>
   int (assigned_count (name (example_plan ''2'' ''X'' 2)) (rankStudents example_students duplicate_plans))
     \<le> max 0 (quota (example_plan ''2'' ''X'' 2))"
proof -
  let ?out = "rankStudents example_students duplicate_plans"
  have h1: "duplicate_plans = [example_plan ''1'' ''X'' 1] @ example_plan ''2'' ''X'' 2 # []"
    by (simp add: duplicate_plans_def)
  have h2: "name (example_plan ''2'' ''X'' 2) \<notin> name ` set []" by simp
  have nq: "name (example_plan ''2'' ''X'' 2) = ''X''" "quota (example_plan ''2'' ''X'' 2) = 2"
    by (simp_all add: example_plan_def)
  have l: "Suc 0 < length ?out" by (simp add: length_rankStudents example_students_def)
  have "map preferredStreams ?out ! Suc 0 = [''X'', ''Y'']" by (simp add: run_defs)
  then have pr: "preferredStreams (?out ! Suc 0) = ''X'' # [''Y'']" using l by simp
  have "take (Suc 0) (map qualifiedStream ?out) = [Some ''X'']" by (simp add: duplicate_run)
  then have c1: "assigned_count ''X'' (take (Suc 0) ?out) = 1"
    by (simp add: assigned_count_map take_map)
  have c: "assigned_count ''X'' ?out = 2"
    by (simp add: assigned_count_map duplicate_run)
  have "map qualifiedStream ?out ! Suc 0 = Some ''X''" by (simp add: duplicate_run)
  then have q1: "qualifiedStream (?out ! Suc 0) = Some ''X''" using l by simp
  from duplicate_names_last_quota[OF h1 h2 refl, of "Suc 0" example_students "[''Y'']"]
  show ?thesis using h1 nq l pr c1 c q1 by simp
qed

text \<open>
  With a negative last quota the count, which is 0, is above the quota: of the two tracks
  named \<open>X\<close> with the quotas 1 and -1, the last quota is -1 and no student is assigned.
\<close>

theorem negative_last_quota_counterexample:
  "map name negative_quota_plans = [''X'', ''X''] \<and>
   map quota negative_quota_plans = [1, - 1] \<and>
   assigned_count ''X'' (rankStudents example_students negative_quota_plans) = 0 \<and>
   \<not> int (assigned_count ''X'' (rankStudents example_students negative_quota_plans))
       \<le> quota (last negative_quota_plans)"
proof -
  have "map qualifiedStream (rankStudents example_students negative_quota_plans) = [None, None, None]"
    by (simp add: run_defs negative_quota_plans_def)
  then have "assigned_count ''X'' (rankStudents example_students negative_quota_plans) = 0"
    by (simp add: assigned_count_map)
  then show ?thesis by (simp add: negative_quota_plans_def example_plan_def)
qed

lemma truncate_with_total: "Student.truncate (with_total s) = s"
  by (simp add: with_total_def Student.truncate_def Student.extend_def)

lemma truncate_update:
  "Student.truncate (r\<lparr>rank := a, qualifiedStream := b\<rparr>) = Student.truncate r"
  by (simp add: Student.truncate_def)

lemma map_rank_rankStudents:
  "map rank (rankStudents students plans) = [1..<Suc (length students)]"
  by (rule nth_equalityI) (simp_all add: length_rankStudents rank_nth nth_Cons' del: upt_Suc)

lemma truncate_rankStudents:
  "map Student.truncate (rankStudents students plans) =
   map Student.truncate (array_sort sort_comparator (map with_total students))"
proof (rule nth_equalityI)
  show "length (map Student.truncate (rankStudents students plans)) =
    length (map Student.truncate (array_sort sort_comparator (map with_total students)))"
    by (simp add: length_rankStudents length_array_sort)
next
  fix i assume "i < length (map Student.truncate (rankStudents students plans))"
  then have li: "i < length students" by (simp add: length_rankStudents)
  then have "Student.truncate (rankStudents students plans ! i) =
    Student.truncate (array_sort sort_comparator (map with_total students) ! i)"
    by (subst rankStudents_nth) (simp_all add: truncate_update)
  then show "map Student.truncate (rankStudents students plans) ! i =
    map Student.truncate (array_sort sort_comparator (map with_total students)) ! i"
    using li by (simp add: length_rankStudents length_array_sort)
qed

lemma mset_truncate_rankStudents:
  "mset (map Student.truncate (rankStudents students plans)) = mset students"
proof -
  have "mset (map Student.truncate (array_sort sort_comparator (map with_total students))) =
      image_mset Student.truncate (mset (array_sort sort_comparator (map with_total students)))"
    by (rule mset_map)
  also have "\<dots> = image_mset Student.truncate (image_mset with_total (mset students))"
    by (simp only: mset_array_sort mset_map)
  also have "\<dots> = mset students"
    by (simp add: multiset.map_comp comp_def truncate_with_total)
  finally show ?thesis by (simp add: truncate_rankStudents)
qed

section \<open>Ranks\<close>

text \<open>
  Claim C5 (rank permutation). For a list of \<open>N\<close> students the ranks of the output of
  \<open>rankStudents\<close>, read in output order, are \<open>1, 2, \<dots>, N\<close>: exactly the numbers
  \<open>1..N\<close>, each once, in ascending order. The rank is the 1-based position in the
  sorted sequence: the element at position \<open>i\<close> is the element at position \<open>i\<close> of the
  sorted array with rank \<open>i + 1\<close> (and its \<open>qualifiedStream\<close>), so neighbours in the
  output have consecutive ranks whatever the comparator says about them, and no rank
  number is shared. The output holds exactly the input students, and an empty list
  gives an empty output.
\<close>

theorem rank_permutation:
  "map rank (rankStudents students plans) = [1..<Suc (length students)] \<and>
   set (map rank (rankStudents students plans)) = {1..length students} \<and>
   distinct (map rank (rankStudents students plans)) \<and>
   (\<forall>i < length students.
      rankStudents students plans ! i =
        (array_sort sort_comparator (map with_total students) ! i)
          \<lparr>rank := i + 1, qualifiedStream := qualifiedStream (rankStudents students plans ! i)\<rparr>) \<and>
   (\<forall>i. Suc i < length students \<longrightarrow>
      rank (rankStudents students plans ! Suc i) = rank (rankStudents students plans ! i) + 1) \<and>
   mset (map Student.truncate (rankStudents students plans)) = mset students \<and>
   length (rankStudents students plans) = length students \<and>
   rankStudents [] plans = []"
proof -
  have a: "map rank (rankStudents students plans) = [1..<Suc (length students)]"
    by (rule map_rank_rankStudents)
  have b: "set (map rank (rankStudents students plans)) = {1..length students}"
    unfolding a by auto
  have c: "distinct (map rank (rankStudents students plans))"
    unfolding a by simp
  have d: "\<forall>i < length students.
      rankStudents students plans ! i =
        (array_sort sort_comparator (map with_total students) ! i)
          \<lparr>rank := i + 1, qualifiedStream := qualifiedStream (rankStudents students plans ! i)\<rparr>"
    using rankStudents_nth by blast
  have e: "\<forall>i. Suc i < length students \<longrightarrow>
      rank (rankStudents students plans ! Suc i) = rank (rankStudents students plans ! i) + 1"
    by (simp add: rank_nth)
  have f: "rankStudents [] plans = []"
    using length_rankStudents[of "[]" plans] by simp
  from a b c d e f show ?thesis
    by (simp only: mset_truncate_rankStudents length_rankStudents simp_thms)
qed

theorem rank_permutation_witness:
  "map rank (rankStudents example_students example_plans) = [1, 2, 3] \<and>
   map id' (rankStudents example_students example_plans) = [''A'', ''B'', ''C'']"
  using rank_permutation[of example_students example_plans]
  by (simp add: example_run(1)) (simp add: example_students_def upt_rec)

section \<open>Total score\<close>

text \<open>
  Claim C3 (total score). The claim asks for the sum of the scores over the configured
  subject keys, an absent key counting 0. \<open>calculateTotal\<close> adds the five fixed keys
  and an absent key turns the sum into \<open>NaN\<close>: for a student with the scores math 80
  and science 90 and no other key, the total that the claim describes is 170 and the
  \<open>totalScore\<close> that \<open>rankStudents\<close> returns is \<open>NaN\<close>.
\<close>

theorem total_score_absent_key:
  "map totalScore (rankStudents [two_subject_student] plans) = [NaN] \<and>
   spec_total [''math'', ''science'', ''thai'', ''english'', ''social''] two_subject_student = 170"
proof -
  have "length (rankStudents [two_subject_student] plans) = 1"
    by (simp add: length_rankStudents)
  moreover have "totalScore (rankStudents [two_subject_student] plans ! 0) = NaN"
    by (subst rankStudents_nth)
      (simp_all add: array_sort_def with_total_def calculateTotal_def two_subject_student_def
        Student.extend_def RankedStudent.fields_def)
  ultimately have "map totalScore (rankStudents [two_subject_student] plans) = [NaN]"
    by (cases "rankStudents [two_subject_student] plans") simp_all
  then show ?thesis
    by (simp add: spec_total_def score_of_def two_subject_student_def)
qed

lemma better_neg: "length xs = length ys \<Longrightarrow> (map uminus xs < map uminus ys) = better xs ys"
  by (induction xs ys rule: list_induct2) auto

lemma better_irrefl: "\<not> better xs xs"
  by (induction xs) auto

lemma better_trans: "better xs ys \<Longrightarrow> better ys zs \<Longrightarrow> better xs zs"
proof (induction xs ys arbitrary: zs rule: better.induct)
  case (1 x xs y ys)
  then show ?case by (cases zs) auto
qed simp_all

lemma better_total: "length xs = length ys \<Longrightarrow> better xs ys \<or> xs = ys \<or> better ys xs"
  by (induction xs ys rule: list_induct2) auto

lemma length_sort_keys: "length (sort_keys r) = 6"
  by (simp add: sort_keys_def)

lemma neg_keys_less: "(neg_keys a < neg_keys b) = better (sort_keys a) (sort_keys b)"
  by (simp add: neg_keys_def better_neg length_sort_keys)

lemma neg_keys_eq: "(neg_keys a = neg_keys b) = (sort_keys a = sort_keys b)"
proof -
  have "inj (map (uminus :: int \<Rightarrow> int))" by (simp add: inj_on_def)
  then show ?thesis unfolding neg_keys_def by (simp add: inj_eq)
qed

lemma neg_keys_le: "(neg_keys a \<le> neg_keys b) = (better (sort_keys a) (sort_keys b) \<or> sort_keys a = sort_keys b)"
  by (simp add: le_less neg_keys_less neg_keys_eq)

lemma comparator_eq:
  assumes "consistent a" "consistent b"
  shows "(sort_compare (sort_comparator a b) = 0) = (sort_keys a = sort_keys b)"
proof -
  from assms obtain ma sa ta ea oa where a: "scores a ''math'' = Some ma" "scores a ''science'' = Some sa"
     "scores a ''thai'' = Some ta" "scores a ''english'' = Some ea" "scores a ''social'' = Some oa"
    by (auto simp: consistent_def well_scored_def)
  from assms obtain mb sb tb eb ob where b: "scores b ''math'' = Some mb" "scores b ''science'' = Some sb"
     "scores b ''thai'' = Some tb" "scores b ''english'' = Some eb" "scores b ''social'' = Some ob"
    by (auto simp: consistent_def well_scored_def)
  have ta: "totalScore a = Num (ma + sa + ta + ea + oa)"
    using assms(1) a by (simp add: consistent_def calculateTotal_def)
  have tb: "totalScore b = Num (mb + sb + tb + eb + ob)"
    using assms(2) b by (simp add: consistent_def calculateTotal_def)
  show ?thesis
    by (simp add: sort_comparator_def tieBreaker_def sort_keys_def total_of_def score_of_def a b ta tb)
qed

lemma comparator_less:
  assumes "consistent a" "consistent b"
  shows "(sort_compare (sort_comparator a b) < 0) = better (sort_keys a) (sort_keys b)"
proof -
  have "(sort_compare (sort_comparator a b) < 0) =
     (sort_compare (sort_comparator a b) \<le> 0 \<and> sort_compare (sort_comparator a b) \<noteq> 0)"
    by auto
  also have "\<dots> = (neg_keys a \<le> neg_keys b \<and> sort_keys a \<noteq> sort_keys b)"
    using assms by (simp add: comparator_le comparator_eq)
  also have "\<dots> = better (sort_keys a) (sort_keys b)"
    using better_irrefl[of "sort_keys b"] by (auto simp add: neg_keys_le)
  finally show ?thesis .
qed

lemma sort_keys_update: "sort_keys (r\<lparr>rank := a, qualifiedStream := b\<rparr>) = sort_keys r"
  by (simp add: sort_keys_def total_of_def score_of_def)

lemma consistent_update: "consistent (r\<lparr>rank := a, qualifiedStream := b\<rparr>) = consistent r"
  by (simp add: consistent_def well_scored_def calculateTotal_def)

lemma sorted_students_consistent:
  assumes "\<forall>s \<in> set students. well_scored s"
  shows "\<forall>r \<in> set (array_sort sort_comparator (map with_total students)). consistent r"
  using assms by (auto simp add: set_array_sort consistent_with_total)

lemma sorted_students_sort_key:
  assumes "\<forall>s \<in> set students. well_scored s"
  shows "array_sort sort_comparator (map with_total students) = sort_key neg_keys (map with_total students)"
  using assms by (intro array_sort_sort_key) (auto simp add: consistent_with_total)

lemma rankStudents_sort_keys:
  "i < length students \<Longrightarrow>
   sort_keys (rankStudents students plans ! i) =
   sort_keys (array_sort sort_comparator (map with_total students) ! i)"
  by (subst rankStudents_nth) (simp_all add: sort_keys_update)

lemma rankStudents_consistent:
  assumes "\<forall>s \<in> set students. well_scored s" and "r \<in> set (rankStudents students plans)"
  shows "consistent r"
proof -
  from assms(2) obtain i where i: "i < length students" "r = rankStudents students plans ! i"
    by (auto simp: in_set_conv_nth length_rankStudents)
  let ?sorted = "array_sort sort_comparator (map with_total students)"
  have "?sorted ! i \<in> set ?sorted" using i(1) by (simp add: length_array_sort)
  then have "consistent (?sorted ! i)" using sorted_students_consistent[OF assms(1)] by blast
  moreover have "r = (?sorted ! i)\<lparr>rank := i + 1, qualifiedStream := qualifiedStream r\<rparr>"
    using i rankStudents_nth[of i students plans] by simp
  ultimately show ?thesis by (metis consistent_update)
qed

lemma rankStudents_sorted:
  assumes "\<forall>s \<in> set students. well_scored s" and "i \<le> j" and "j < length students"
  shows "neg_keys (rankStudents students plans ! i) \<le> neg_keys (rankStudents students plans ! j)"
proof -
  let ?sorted = "sort_key neg_keys (map with_total students)"
  have "sorted (map neg_keys ?sorted)" by (rule sorted_sort_key)
  moreover have "j < length (map neg_keys ?sorted)" using assms(3) by simp
  ultimately have "map neg_keys ?sorted ! i \<le> map neg_keys ?sorted ! j"
    using assms(2) by (simp only: sorted_iff_nth_mono)
  then have "neg_keys (?sorted ! i) \<le> neg_keys (?sorted ! j)"
    using assms(2,3) by simp
  moreover have "sort_keys (rankStudents students plans ! i) = sort_keys (?sorted ! i)"
    "sort_keys (rankStudents students plans ! j) = sort_keys (?sorted ! j)"
    using assms by (simp_all add: rankStudents_sort_keys sorted_students_sort_key)
  ultimately show ?thesis by (simp add: neg_keys_def)
qed

lemma example_students_well_scored: "\<forall>s \<in> set example_students. well_scored s"
  by (simp add: example_students_def example_student_def well_scored_def)

section \<open>Sort order\<close>

text \<open>
  The order on students that carry the five scores. \<open>sort_keys\<close> lists a student's
  total score and then the scores for science, math, english, thai and social, in that
  fixed priority, and \<open>better\<close> compares two such lists from the top: the first
  position where they differ decides, the larger value winning. For such students the
  comparator of \<open>rankStudents\<close> decides exactly as \<open>better\<close> does (negative when the
  first student is better, zero when all keys agree), \<open>better\<close> is a strict total order
  on the key lists, and the output is sorted by it: of two output positions the earlier
  one holds the better student, or one with the same keys.
\<close>

lemma sort_order_well_scored:
  assumes "\<forall>s \<in> set students. well_scored s" and "out = rankStudents students plans"
  shows "(\<forall>i j. i < j \<and> j < length out \<longrightarrow>
            better (sort_keys (out ! i)) (sort_keys (out ! j)) \<or> sort_keys (out ! i) = sort_keys (out ! j)) \<and>
         (\<forall>a \<in> set out. \<forall>b \<in> set out.
            (sort_compare (sort_comparator a b) < 0) = better (sort_keys a) (sort_keys b) \<and>
            (sort_compare (sort_comparator a b) = 0) = (sort_keys a = sort_keys b)) \<and>
         (\<forall>a b. better (sort_keys a) (sort_keys b) \<or> sort_keys a = sort_keys b \<or>
            better (sort_keys b) (sort_keys a)) \<and>
         (\<forall>x y z. better x y \<and> better y z \<longrightarrow> better x z) \<and>
         (\<forall>x. \<not> better x x)"
proof (intro conjI allI impI ballI)
  fix i j assume "i < j \<and> j < length out"
  then have "i \<le> j" "j < length students" by (simp_all add: assms(2) length_rankStudents)
  from rankStudents_sorted[OF assms(1) this, of plans]
  show "better (sort_keys (out ! i)) (sort_keys (out ! j)) \<or> sort_keys (out ! i) = sort_keys (out ! j)"
    by (simp add: assms(2) neg_keys_le)
next
  fix a b assume "a \<in> set out" "b \<in> set out"
  then have c: "consistent a" "consistent b"
    using rankStudents_consistent[OF assms(1)] assms(2) by blast+
  from c show "(sort_compare (sort_comparator a b) < 0) = better (sort_keys a) (sort_keys b)"
    by (rule comparator_less)
  from c show "(sort_compare (sort_comparator a b) = 0) = (sort_keys a = sort_keys b)"
    by (rule comparator_eq)
next
  fix a b :: RankedStudent
  show "better (sort_keys a) (sort_keys b) \<or> sort_keys a = sort_keys b \<or> better (sort_keys b) (sort_keys a)"
    by (rule better_total) (simp add: length_sort_keys)
next
  fix x y z assume "better x y \<and> better y z"
  then show "better x z" using better_trans by blast
next
  fix x show "\<not> better x x" by (rule better_irrefl)
qed

lemma sort_order_well_scored_example:
  "list_all well_scored example_students \<and>
   map id' example_students = [''C'', ''B'', ''A''] \<and>
   map id' (rankStudents example_students example_plans) = [''A'', ''B'', ''C''] \<and>
   map sort_keys (rankStudents example_students example_plans) =
     [[370, 90, 80, 70, 70, 60], [370, 90, 70, 70, 70, 70], [320, 60, 50, 70, 70, 70]] \<and>
   better (sort_keys (rankStudents example_students example_plans ! 0))
          (sort_keys (rankStudents example_students example_plans ! Suc 0))"
proof -
  let ?out = "rankStudents example_students example_plans"
  have k: "map sort_keys ?out =
     [[370, 90, 80, 70, 70, 60], [370, 90, 70, 70, 70, 70], [320, 60, 50, 70, 70, 70]]"
    by (simp add: run_defs sort_keys_def total_of_def score_of_def)
  have l: "length ?out = 3" by (simp add: example_out(1))
  have "map sort_keys ?out ! 0 = [370, 90, 80, 70, 70, 60]" "map sort_keys ?out ! Suc 0 = [370, 90, 70, 70, 70, 70]"
    by (simp_all add: k)
  then have k01: "sort_keys (?out ! 0) = [370, 90, 80, 70, 70, 60]" "sort_keys (?out ! Suc 0) = [370, 90, 70, 70, 70, 70]"
    using l by simp_all
  have "(0::nat) < Suc 0 \<and> Suc 0 < length ?out" using l by simp
  with sort_order_well_scored[OF example_students_well_scored refl, of example_plans]
  have "better (sort_keys (?out ! 0)) (sort_keys (?out ! Suc 0)) \<or> sort_keys (?out ! 0) = sort_keys (?out ! Suc 0)"
    by blast
  then have "better (sort_keys (?out ! 0)) (sort_keys (?out ! Suc 0))" by (simp add: k01)
  with k example_students_well_scored show ?thesis
    by (simp add: example_run(1) list_all_iff) (simp add: example_students_def example_student_def)
qed

lemma filter_positions:
  "a < b \<Longrightarrow> b < length (filter Q xs) \<Longrightarrow>
   \<exists>i j. i < j \<and> j < length xs \<and> xs ! i = filter Q xs ! a \<and> xs ! j = filter Q xs ! b"
proof (induction xs arbitrary: a b)
  case Nil
  then show ?case by simp
next
  case (Cons x xs)
  show ?case
  proof (cases "Q x")
    case False
    with Cons.prems have "b < length (filter Q xs)" by simp
    from Cons.IH[OF Cons.prems(1) this] obtain i j where
      "i < j" "j < length xs" "xs ! i = filter Q xs ! a" "xs ! j = filter Q xs ! b" by blast
    with False have "Suc i < Suc j \<and> Suc j < length (x # xs) \<and> (x # xs) ! Suc i = filter Q (x # xs) ! a \<and>
       (x # xs) ! Suc j = filter Q (x # xs) ! b" by simp
    then show ?thesis by blast
  next
    case True
    from Cons.prems obtain b' where b': "b = Suc b'" by (cases b) auto
    with True Cons.prems have lb: "b' < length (filter Q xs)" by simp
    show ?thesis
    proof (cases a)
      case 0
      from lb have "filter Q xs ! b' \<in> set xs" using nth_mem[OF lb] by auto
      then have "\<exists>j < length xs. xs ! j = filter Q xs ! b'" by (simp only: in_set_conv_nth)
      then obtain j where "j < length xs" "xs ! j = filter Q xs ! b'" by blast
      with True 0 b' have "0 < Suc j \<and> Suc j < length (x # xs) \<and> (x # xs) ! 0 = filter Q (x # xs) ! a \<and>
         (x # xs) ! Suc j = filter Q (x # xs) ! b" by simp
      then show ?thesis by blast
    next
      case (Suc a')
      with b' Cons.prems have "a' < b'" by simp
      from Cons.IH[OF this lb] obtain i j where
        "i < j" "j < length xs" "xs ! i = filter Q xs ! a'" "xs ! j = filter Q xs ! b'" by blast
      with True Suc b' have "Suc i < Suc j \<and> Suc j < length (x # xs) \<and> (x # xs) ! Suc i = filter Q (x # xs) ! a \<and>
         (x # xs) ! Suc j = filter Q (x # xs) ! b" by simp
      then show ?thesis by blast
    qed
  qed
qed

lemma positions_filter:
  "a < b \<Longrightarrow> b < length xs \<Longrightarrow> Q (xs ! a) \<Longrightarrow> Q (xs ! b) \<Longrightarrow>
   \<exists>a' b'. a' < b' \<and> b' < length (filter Q xs) \<and> filter Q xs ! a' = xs ! a \<and> filter Q xs ! b' = xs ! b"
proof (induction xs arbitrary: a b)
  case Nil
  then show ?case by simp
next
  case (Cons x xs)
  from Cons.prems obtain b0 where b0: "b = Suc b0" by (cases b) auto
  with Cons.prems have lb: "b0 < length xs" and qb: "Q (xs ! b0)" by simp_all
  show ?case
  proof (cases a)
    case 0
    from lb qb have "xs ! b0 \<in> set (filter Q xs)" by simp
    then have "\<exists>j < length (filter Q xs). filter Q xs ! j = xs ! b0"
      by (simp only: in_set_conv_nth)
    then obtain j where j: "j < length (filter Q xs)" "filter Q xs ! j = xs ! b0"
      by blast
    from 0 Cons.prems have "Q x" by simp
    with 0 b0 j have "0 < Suc j \<and> Suc j < length (filter Q (x # xs)) \<and>
       filter Q (x # xs) ! 0 = (x # xs) ! a \<and> filter Q (x # xs) ! Suc j = (x # xs) ! b" by simp
    then show ?thesis by blast
  next
    case (Suc a0)
    with b0 Cons.prems have "a0 < b0" "Q (xs ! a0)" by simp_all
    from Cons.IH[OF this(1) lb this(2) qb] obtain a' b' where h:
      "a' < b'" "b' < length (filter Q xs)" "filter Q xs ! a' = xs ! a0" "filter Q xs ! b' = xs ! b0"
      by blast
    show ?thesis
    proof (cases "Q x")
      case True
      with h Suc b0 have "Suc a' < Suc b' \<and> Suc b' < length (filter Q (x # xs)) \<and>
         filter Q (x # xs) ! Suc a' = (x # xs) ! a \<and> filter Q (x # xs) ! Suc b' = (x # xs) ! b" by simp
      then show ?thesis by blast
    next
      case False
      with h Suc b0 have "a' < b' \<and> b' < length (filter Q (x # xs)) \<and>
         filter Q (x # xs) ! a' = (x # xs) ! a \<and> filter Q (x # xs) ! b' = (x # xs) ! b" by simp
      then show ?thesis by blast
    qed
  qed
qed

lemma sort_keys_truncate: "sort_keys (with_total (Student.truncate r)) = sort_keys r" if "consistent r"
  using that
  by (simp add: sort_keys_def total_of_def score_of_def with_total_def consistent_def calculateTotal_def
      Student.truncate_def Student.extend_def RankedStudent.fields_def)

lemma stable_filter:
  assumes "\<forall>s \<in> set students. well_scored s"
  shows "map Student.truncate (filter (\<lambda>r. sort_keys r = K) (rankStudents students plans)) =
         filter (\<lambda>s. sort_keys (with_total s) = K) students"
proof -
  let ?out = "rankStudents students plans"
  let ?sorted = "array_sort sort_comparator (map with_total students)"
  have cons: "\<forall>r \<in> set ?out. consistent r" using rankStudents_consistent[OF assms] by blast
  have cons': "\<forall>r \<in> set ?sorted. consistent r" by (rule sorted_students_consistent[OF assms])
  have "filter (\<lambda>r. sort_keys r = K) ?out =
        filter (\<lambda>r. sort_keys (with_total (Student.truncate r)) = K) ?out"
    using cons by (intro filter_cong refl) (simp add: sort_keys_truncate)
  then have "map Student.truncate (filter (\<lambda>r. sort_keys r = K) ?out) =
        map Student.truncate (filter (\<lambda>r. sort_keys (with_total (Student.truncate r)) = K) ?out)"
    by simp
  also have "\<dots> = filter (\<lambda>s. sort_keys (with_total s) = K) (map Student.truncate ?out)"
    by (simp add: filter_map comp_def)
  also have "\<dots> = filter (\<lambda>s. sort_keys (with_total s) = K) (map Student.truncate ?sorted)"
    by (simp only: truncate_rankStudents)
  also have "\<dots> = map Student.truncate (filter (\<lambda>r. sort_keys (with_total (Student.truncate r)) = K) ?sorted)"
    by (simp add: filter_map comp_def)
  also have "\<dots> = map Student.truncate (filter (\<lambda>r. sort_keys r = K) ?sorted)"
    using cons' by (intro arg_cong[where f = "map Student.truncate"] filter_cong refl)
      (simp add: sort_keys_truncate)
  also have "\<dots> = map Student.truncate (filter (\<lambda>r. neg_keys r = map uminus K) (sort_key neg_keys (map with_total students)))"
    by (simp add: sorted_students_sort_key[OF assms] neg_keys_def inj_eq)
  also have "\<dots> = map Student.truncate (filter (\<lambda>r. neg_keys r = map uminus K) (map with_total students))"
    by (simp only: sort_key_stable)
  also have "\<dots> = filter (\<lambda>s. sort_keys (with_total s) = K) students"
    by (simp add: filter_map comp_def truncate_with_total neg_keys_def inj_eq)
  finally show ?thesis .
qed

lemma rankStudents_id:
  "map id' (rankStudents students plans) = map id' (array_sort sort_comparator (map with_total students))"
proof (rule nth_equalityI)
  show "length (map id' (rankStudents students plans)) =
    length (map id' (array_sort sort_comparator (map with_total students)))"
    by (simp add: length_rankStudents length_array_sort)
next
  fix i assume "i < length (map id' (rankStudents students plans))"
  then have li: "i < length students" by (simp add: length_rankStudents)
  then have "id' (rankStudents students plans ! i) =
    id' (array_sort sort_comparator (map with_total students) ! i)"
    by (subst rankStudents_nth) simp_all
  then show "map id' (rankStudents students plans) ! i =
    map id' (array_sort sort_comparator (map with_total students)) ! i"
    using li by (simp add: length_rankStudents length_array_sort)
qed

lemma rankStudents_totalScore:
  "map totalScore (rankStudents students plans) =
   map totalScore (array_sort sort_comparator (map with_total students))"
proof (rule nth_equalityI)
  show "length (map totalScore (rankStudents students plans)) =
    length (map totalScore (array_sort sort_comparator (map with_total students)))"
    by (simp add: length_rankStudents length_array_sort)
next
  fix i assume "i < length (map totalScore (rankStudents students plans))"
  then have li: "i < length students" by (simp add: length_rankStudents)
  then have "totalScore (rankStudents students plans ! i) =
    totalScore (array_sort sort_comparator (map with_total students) ! i)"
    by (subst rankStudents_nth) simp_all
  then show "map totalScore (rankStudents students plans) ! i =
    map totalScore (array_sort sort_comparator (map with_total students)) ! i"
    using li by (simp add: length_rankStudents length_array_sort)
qed

text \<open>
  Claim C4 (sort order). The claim asks for a total order: total score descending, then
  the subject scores in their fixed priority. \<open>sort_order_well_scored\<close> shows that order
  on students that carry the five scores. A student that lacks a key has the total
  \<open>NaN\<close>, and the comparator returns \<open>NaN\<close> for it against every other student without
  looking at a subject score, which the sort takes for a tie. The comparator is then no
  order: S0 (total 1) ties with S2, S2 ties with S1 (total 3), and S1 is strictly before
  S0. Given in the order S0, S2, S1 the three students keep that order, so that S0 with
  the total 1 has rank 1 and S1 with the total 3 has rank 3.
\<close>

theorem sort_order_absent_key:
  "sort_comparator (with_total (partly_scored_students ! 0)) (with_total (partly_scored_students ! 1)) = NaN \<and>
   sort_comparator (with_total (partly_scored_students ! 1)) (with_total (partly_scored_students ! 2)) = NaN \<and>
   sort_comparator (with_total (partly_scored_students ! 2)) (with_total (partly_scored_students ! 0)) = Num (- 2) \<and>
   map id' (rankStudents partly_scored_students plans) = [''S0'', ''S2'', ''S1''] \<and>
   map totalScore (rankStudents partly_scored_students plans) = [Num 1, NaN, Num 3] \<and>
   map rank (rankStudents partly_scored_students plans) = [1, 2, 3]"
proof -
  have c: "sort_comparator (with_total (partly_scored_students ! 0)) (with_total (partly_scored_students ! 1)) = NaN"
    "sort_comparator (with_total (partly_scored_students ! 1)) (with_total (partly_scored_students ! 2)) = NaN"
    "sort_comparator (with_total (partly_scored_students ! 2)) (with_total (partly_scored_students ! 0)) = Num (- 2)"
    by (simp_all add: partly_scored_students_def example_student_def sort_comparator_def tieBreaker_def
        with_total_def calculateTotal_def Student.extend_def RankedStudent.fields_def)
  have i: "map id' (rankStudents partly_scored_students plans) = [''S0'', ''S2'', ''S1'']"
    unfolding rankStudents_id
    by (simp add: partly_scored_students_def example_student_def array_sort_def sort_comparator_def
        tieBreaker_def with_total_def calculateTotal_def Student.extend_def RankedStudent.fields_def)
  have t: "map totalScore (rankStudents partly_scored_students plans) = [Num 1, NaN, Num 3]"
    unfolding rankStudents_totalScore
    by (simp add: partly_scored_students_def example_student_def array_sort_def sort_comparator_def
        tieBreaker_def with_total_def calculateTotal_def Student.extend_def RankedStudent.fields_def)
  have r: "map rank (rankStudents partly_scored_students plans) = [1, 2, 3]"
    unfolding map_rank_rankStudents by (simp add: partly_scored_students_def upt_rec)
  from c i t r show ?thesis by simp
qed

section \<open>Ties\<close>

text \<open>
  Claim C7 (stable ties), as amended. Let every student carry the five scores, and let
  the students at input positions \<open>a < b\<close> have the same total and the same score on
  every tie-break subject. Then they appear in the output of \<open>rankStudents\<close> in their
  input order, at positions \<open>i < j\<close>, with the distinct ranks \<open>i + 1\<close> and \<open>j + 1\<close>, and
  every student ranked from \<open>i\<close> to \<open>j\<close> has the same keys: the tied students fill one
  run of consecutive ranks. The two ranks themselves are adjacent only when no other
  student with these scores stands between the two.
\<close>

theorem stable_ties:
  assumes "\<forall>s \<in> set students. well_scored s" and "out = rankStudents students plans"
    and "a < b" and "b < length students"
    and "sort_keys (with_total (students ! a)) = sort_keys (with_total (students ! b))"
  shows "\<exists>i j. i < j \<and> j < length out \<and>
           Student.truncate (out ! i) = students ! a \<and> Student.truncate (out ! j) = students ! b \<and>
           rank (out ! i) = i + 1 \<and> rank (out ! j) = j + 1 \<and>
           (\<forall>k. i \<le> k \<and> k \<le> j \<longrightarrow> sort_keys (out ! k) = sort_keys (with_total (students ! a)))"
proof -
  define K where "K = sort_keys (with_total (students ! a))"
  define Q where "Q = (\<lambda>s. sort_keys (with_total s) = K)"
  define F where "F = filter (\<lambda>r. sort_keys r = K) out"
  have st: "map Student.truncate F = filter Q students"
    unfolding F_def Q_def assms(2) by (rule stable_filter[OF assms(1)])
  have "Q (students ! a)" "Q (students ! b)" using assms(5) by (simp_all add: Q_def K_def)
  from positions_filter[OF assms(3,4) this] obtain a' b' where p:
    "a' < b'" "b' < length (filter Q students)" "filter Q students ! a' = students ! a"
    "filter Q students ! b' = students ! b" by blast
  have lF: "length F = length (filter Q students)" using st by (metis length_map)
  then have b'F: "b' < length F" using p(2) by simp
  then have a'F: "a' < length F" using p(1) by simp
  have ta: "Student.truncate (F ! a') = students ! a"
    using st a'F p(3) by (metis nth_map)
  have tb: "Student.truncate (F ! b') = students ! b"
    using st b'F p(4) by (metis nth_map)
  from filter_positions[OF p(1), of "\<lambda>r. sort_keys r = K" out] b'F obtain i j where ij:
    "i < j" "j < length out" "out ! i = F ! a'" "out ! j = F ! b'"
    unfolding F_def by blast
  have n: "length out = length students" by (simp add: assms(2) length_rankStudents)
  have "F ! a' \<in> set F" "F ! b' \<in> set F" using a'F b'F by simp_all
  then have ki: "sort_keys (out ! i) = K" and kj: "sort_keys (out ! j) = K"
    using ij(3,4) by (simp_all add: F_def)
  have between: "sort_keys (out ! k) = K" if "i \<le> k" "k \<le> j" for k
  proof -
    have kl: "k < length students" using that ij(2) n by simp
    have jl: "j < length students" using ij(2) n by simp
    have "neg_keys (out ! i) \<le> neg_keys (out ! k)"
      unfolding assms(2) by (rule rankStudents_sorted[OF assms(1) that(1) kl])
    moreover have "neg_keys (out ! k) \<le> neg_keys (out ! j)"
      unfolding assms(2) by (rule rankStudents_sorted[OF assms(1) that(2) jl])
    moreover have "neg_keys (out ! i) = neg_keys (out ! j)" using ki kj by (simp add: neg_keys_def)
    ultimately have "neg_keys (out ! k) = neg_keys (out ! i)" by simp
    then show ?thesis using ki by (simp add: neg_keys_eq)
  qed
  have ri: "rank (out ! i) = i + 1" and rj: "rank (out ! j) = j + 1"
    using ij(1,2) n by (simp_all add: assms(2) rank_nth)
  have "i < j \<and> j < length out \<and>
           Student.truncate (out ! i) = students ! a \<and> Student.truncate (out ! j) = students ! b \<and>
           rank (out ! i) = i + 1 \<and> rank (out ! j) = j + 1 \<and>
           (\<forall>k. i \<le> k \<and> k \<le> j \<longrightarrow> sort_keys (out ! k) = sort_keys (with_total (students ! a)))"
    using ij ta tb ri rj between by (simp add: K_def)
  then show ?thesis by blast
qed

lemma three_tied_run:
  "map id' (rankStudents three_tied []) = [''A'', ''B'', ''C'']"
  "map rank (rankStudents three_tied []) = [1, 2, 3]"
  by (simp_all add: run_defs three_tied_def)

theorem stable_ties_witness:
  "list_all well_scored three_tied \<and>
   sort_keys (with_total (three_tied ! 0)) = sort_keys (with_total (three_tied ! 2)) \<and>
   id' (three_tied ! 0) = ''A'' \<and> id' (three_tied ! 2) = ''C'' \<and>
   (\<exists>i j. i < j \<and> j < length (rankStudents three_tied []) \<and>
      id' (rankStudents three_tied [] ! i) = ''A'' \<and> id' (rankStudents three_tied [] ! j) = ''C'' \<and>
      rank (rankStudents three_tied [] ! i) = i + 1 \<and> rank (rankStudents three_tied [] ! j) = j + 1)"
proof -
  have h1: "\<forall>s \<in> set three_tied. well_scored s"
    by (simp add: three_tied_def example_student_def well_scored_def)
  have h3: "(0::nat) < 2" and h4: "2 < length three_tied" by (simp_all add: three_tied_def)
  have h5: "sort_keys (with_total (three_tied ! 0)) = sort_keys (with_total (three_tied ! 2))"
    by (simp add: three_tied_def example_student_def sort_keys_def total_of_def score_of_def
        with_total_def calculateTotal_def Student.extend_def RankedStudent.fields_def)
  from stable_ties[OF h1 refl h3 h4 h5, of "[]"] obtain i j where ij:
    "i < j" "j < length (rankStudents three_tied [])"
    "Student.truncate (rankStudents three_tied [] ! i) = three_tied ! 0"
    "Student.truncate (rankStudents three_tied [] ! j) = three_tied ! 2"
    "rank (rankStudents three_tied [] ! i) = i + 1" "rank (rankStudents three_tied [] ! j) = j + 1"
    by blast
  have "id' (Student.truncate (rankStudents three_tied [] ! i)) = ''A''"
    "id' (Student.truncate (rankStudents three_tied [] ! j)) = ''C''"
    unfolding ij(3,4) by (simp_all add: three_tied_def example_student_def)
  then have "id' (rankStudents three_tied [] ! i) = ''A''" "id' (rankStudents three_tied [] ! j) = ''C''"
    by (simp_all add: Student.truncate_def)
  with ij have "\<exists>i j. i < j \<and> j < length (rankStudents three_tied []) \<and>
      id' (rankStudents three_tied [] ! i) = ''A'' \<and> id' (rankStudents three_tied [] ! j) = ''C'' \<and>
      rank (rankStudents three_tied [] ! i) = i + 1 \<and> rank (rankStudents three_tied [] ! j) = j + 1"
    by blast
  moreover have "id' (three_tied ! 0) = ''A''" "id' (three_tied ! 2) = ''C''"
    by (simp_all add: three_tied_def example_student_def)
  moreover have "list_all well_scored three_tied" using h1 by (simp add: list_all_iff)
  ultimately show ?thesis using h5 by blast
qed

text \<open>
  Two tied students need not have adjacent ranks: of three students with the same scores,
  given in the order A, B, C, the tied students A and C receive the ranks 1 and 3.
\<close>

theorem tied_ranks_not_adjacent_counterexample:
  "calculateTotal (three_tied ! 0) = calculateTotal (three_tied ! 2) \<and>
   tieBreaker (three_tied ! 0) (three_tied ! 2) = Num 0 \<and>
   id' (three_tied ! 0) = ''A'' \<and> id' (three_tied ! 2) = ''C'' \<and>
   id' (rankStudents three_tied [] ! 0) = ''A'' \<and> id' (rankStudents three_tied [] ! 2) = ''C'' \<and>
   rank (rankStudents three_tied [] ! 0) = 1 \<and> rank (rankStudents three_tied [] ! 2) = 3 \<and>
   rank (rankStudents three_tied [] ! 2) \<noteq> rank (rankStudents three_tied [] ! 0) + 1"
proof -
  let ?out = "rankStudents three_tied []"
  have l: "length ?out = 3" by (simp add: length_rankStudents three_tied_def)
  have "map id' ?out ! 0 = ''A''" "map id' ?out ! 2 = ''C''" "map rank ?out ! 0 = 1" "map rank ?out ! 2 = 3"
    by (simp_all add: three_tied_run)
  then have "id' (?out ! 0) = ''A''" "id' (?out ! 2) = ''C''" "rank (?out ! 0) = 1" "rank (?out ! 2) = 3"
    using l by simp_all
  then show ?thesis
    by (simp add: three_tied_def example_student_def calculateTotal_def tieBreaker_def)
qed

section \<open>The store: stage by stage\<close>

lemma lookup_lt: "lookup h a = Some c \<Longrightarrow> a < length h"
  by (simp add: lookup_def split: if_splits)

lemma lookup_append: "a < length h \<Longrightarrow> lookup (h @ xs) a = lookup h a"
  by (simp add: lookup_def nth_append)

lemma lookup_append_new: "k < length xs \<Longrightarrow> lookup (h @ xs) (length h + k) = Some (xs ! k)"
  by (simp add: lookup_def nth_append)

lemma lookup_overwrite_same: "p < length h \<Longrightarrow> lookup (overwrite p c h) p = Some c"
  by (simp add: lookup_def overwrite_def)

lemma lookup_overwrite_other: "a \<noteq> p \<Longrightarrow> lookup (overwrite p c h) a = lookup h a"
  by (simp add: lookup_def overwrite_def)

lemma length_overwrite: "length (overwrite p c h) = length h"
  by (simp add: overwrite_def)

lemma overwrite_append: "p < length h \<Longrightarrow> overwrite p c (h @ xs) = overwrite p c h @ xs"
  by (simp add: overwrite_def list_update_append)

lemma overwrite_overwrite: "overwrite p c (overwrite p d h) = overwrite p c h"
  by (simp add: overwrite_def)

lemma overwrite_same: "lookup h q = Some c \<Longrightarrow> overwrite q c h = h"
  by (auto simp: lookup_def overwrite_def split: if_splits)

lemma take_overwrite: "n \<le> p \<Longrightarrow> take n (overwrite p c h) = take n h"
  by (simp add: overwrite_def)

lemma cells_append:
  "list_all2 (\<lambda>e x. lookup h e = Some (f x)) as xs \<Longrightarrow>
   list_all2 (\<lambda>e x. lookup (h @ ys) e = Some (f x)) as xs"
  by (erule list_all2_mono) (simp add: lookup_append lookup_lt)

lemma cells_overwrite:
  "list_all2 (\<lambda>e x. lookup h e = Some (f x)) as xs \<Longrightarrow> (\<And>x. lookup h p \<noteq> Some (f x)) \<Longrightarrow>
   list_all2 (\<lambda>e x. lookup (overwrite p c h) e = Some (f x)) as xs"
  by (erule list_all2_mono) (metis lookup_overwrite_other)

lemma map_with_total_run:
  "list_all2 (\<lambda>e s. lookup h e = Some (Obj_Student s)) as ss \<Longrightarrow>
   map_with_total as h =
     Some ([length h ..< length h + length as], h @ map (\<lambda>s. Obj_Ranked (with_total s)) ss)"
proof (induction as arbitrary: ss h)
  case Nil
  then show ?case by simp
next
  case (Cons a as)
  from Cons.prems obtain s ss' where sp: "ss = s # ss'" "lookup h a = Some (Obj_Student s)"
    "list_all2 (\<lambda>e x. lookup h e = Some (Obj_Student x)) as ss'"
    by (auto simp: list_all2_Cons1)
  let ?h1 = "h @ [Obj_Ranked (with_total s)]"
  have "list_all2 (\<lambda>e x. lookup ?h1 e = Some (Obj_Student x)) as ss'"
    by (rule cells_append[OF sp(3)])
  from Cons.IH[OF this] sp(1,2) show ?case
    by (simp add: alloc_def upt_conv_Cons del: upt_Suc)
qed

lemma map_assign_rank_run:
  "list_all2 (\<lambda>e r. lookup h e = Some (Obj_Ranked r)) as rs \<Longrightarrow>
   map_assign_rank index as h =
     Some ([length h ..< length h + length as],
           h @ map Obj_Ranked (map (\<lambda>(i, s). s\<lparr>rank := i + 1\<rparr>) (enumerate index rs)))"
proof (induction as arbitrary: rs h index)
  case Nil
  then show ?case by simp
next
  case (Cons a as)
  from Cons.prems obtain r rs' where sp: "rs = r # rs'" "lookup h a = Some (Obj_Ranked r)"
    "list_all2 (\<lambda>e x. lookup h e = Some (Obj_Ranked x)) as rs'"
    by (auto simp: list_all2_Cons1)
  let ?h1 = "h @ [Obj_Ranked (r\<lparr>rank := index + 1\<rparr>)]"
  have "list_all2 (\<lambda>e x. lookup ?h1 e = Some (Obj_Ranked x)) as rs'"
    by (rule cells_append[OF sp(3)])
  from Cons.IH[OF this, of "index + 1"] sp(1,2) show ?case
    by (simp add: alloc_def upt_conv_Cons del: upt_Suc)
qed

lemma read_ranked_run:
  "list_all2 (\<lambda>e r. lookup h e = Some (Obj_Ranked r)) as rs \<Longrightarrow> read_ranked h as = Some rs"
  by (induction as arbitrary: rs) (auto simp: list_all2_Cons1)

lemma forEach_usage_run:
  "list_all2 (\<lambda>e p. lookup h e = Some (Obj_Plan p)) as ps \<Longrightarrow> lookup h q = Some (Obj_Record m) \<Longrightarrow>
   forEach_usage q as h = Some (overwrite q (Obj_Record (fold (\<lambda>p m. set_property m (name p) 0) ps m)) h)"
proof (induction as arbitrary: ps h m)
  case Nil
  then show ?case by (simp add: overwrite_same)
next
  case (Cons a as)
  from Cons.prems(1) obtain p ps' where sp: "ps = p # ps'" "lookup h a = Some (Obj_Plan p)"
    "list_all2 (\<lambda>e x. lookup h e = Some (Obj_Plan x)) as ps'"
    by (auto simp: list_all2_Cons1)
  let ?h1 = "overwrite q (Obj_Record (set_property m (name p) 0)) h"
  have "list_all2 (\<lambda>e x. lookup ?h1 e = Some (Obj_Plan x)) as ps'"
    by (rule cells_overwrite[OF sp(3)]) (simp add: Cons.prems(2))
  moreover have "lookup ?h1 q = Some (Obj_Record (set_property m (name p) 0))"
    using Cons.prems(2) by (simp add: lookup_overwrite_same lookup_lt)
  ultimately have ih: "forEach_usage q as ?h1 =
      Some (overwrite q (Obj_Record (fold (\<lambda>p m. set_property m (name p) 0) ps' (set_property m (name p) 0))) ?h1)"
    by (rule Cons.IH)
  have "forEach_usage q (a # as) h = forEach_usage q as ?h1"
    using sp(2) Cons.prems(2) by simp
  also note ih
  also have "fold (\<lambda>p m. set_property m (name p) 0) ps' (set_property m (name p) 0) =
      fold (\<lambda>p m. set_property m (name p) 0) ps m"
    by (simp only: sp(1) fold_simps)
  finally show ?case by (simp only: overwrite_overwrite)
qed

lemma forEach_quotas_run:
  "list_all2 (\<lambda>e p. lookup h e = Some (Obj_Plan p)) as ps \<Longrightarrow> lookup h q = Some (Obj_Record m) \<Longrightarrow>
   forEach_quotas q as h = Some (overwrite q (Obj_Record (fold (\<lambda>p m. set_property m (name p) (quota p)) ps m)) h)"
proof (induction as arbitrary: ps h m)
  case Nil
  then show ?case by (simp add: overwrite_same)
next
  case (Cons a as)
  from Cons.prems(1) obtain p ps' where sp: "ps = p # ps'" "lookup h a = Some (Obj_Plan p)"
    "list_all2 (\<lambda>e x. lookup h e = Some (Obj_Plan x)) as ps'"
    by (auto simp: list_all2_Cons1)
  let ?h1 = "overwrite q (Obj_Record (set_property m (name p) (quota p))) h"
  have "list_all2 (\<lambda>e x. lookup ?h1 e = Some (Obj_Plan x)) as ps'"
    by (rule cells_overwrite[OF sp(3)]) (simp add: Cons.prems(2))
  moreover have "lookup ?h1 q = Some (Obj_Record (set_property m (name p) (quota p)))"
    using Cons.prems(2) by (simp add: lookup_overwrite_same lookup_lt)
  ultimately have ih: "forEach_quotas q as ?h1 =
      Some (overwrite q (Obj_Record (fold (\<lambda>p m. set_property m (name p) (quota p)) ps' (set_property m (name p) (quota p)))) ?h1)"
    by (rule Cons.IH)
  have "forEach_quotas q (a # as) h = forEach_quotas q as ?h1"
    using sp(2) Cons.prems(2) by simp
  also note ih
  also have "fold (\<lambda>p m. set_property m (name p) (quota p)) ps' (set_property m (name p) (quota p)) =
      fold (\<lambda>p m. set_property m (name p) (quota p)) ps m"
    by (simp only: sp(1) fold_simps)
  finally show ?case by (simp only: overwrite_overwrite)
qed

lemma map_allocate_run:
  "list_all2 (\<lambda>e r. lookup h e = Some (Obj_Ranked r)) as rs \<Longrightarrow>
   lookup h pq = Some (Obj_Record quotas) \<Longrightarrow> lookup h qu = Some (Obj_Record usage) \<Longrightarrow> pq \<noteq> qu \<Longrightarrow>
   map_allocate pq qu as h =
     Some ([length h ..< length h + length as],
           overwrite qu (Obj_Record (usage_after quotas usage rs)) h @ map Obj_Ranked (allocate quotas usage rs))"
proof (induction as arbitrary: rs h usage)
  case Nil
  then show ?case by (simp add: overwrite_same)
next
  case (Cons a as)
  from Cons.prems(1) obtain r rs' where sp: "rs = r # rs'" "lookup h a = Some (Obj_Ranked r)"
    "list_all2 (\<lambda>e x. lookup h e = Some (Obj_Ranked x)) as rs'"
    by (auto simp: list_all2_Cons1)
  obtain assigned usage' where sc: "scan_preferences quotas usage (preferredStreams r) = (assigned, usage')"
    by (cases "scan_preferences quotas usage (preferredStreams r)")
  let ?h0 = "overwrite qu (Obj_Record usage') h"
  let ?h1 = "?h0 @ [Obj_Ranked (r\<lparr>qualifiedStream := assigned\<rparr>)]"
  have lq: "qu < length h" "pq < length h" using Cons.prems by (simp_all add: lookup_lt)
  have "list_all2 (\<lambda>e x. lookup ?h0 e = Some (Obj_Ranked x)) as rs'"
    by (rule cells_overwrite[OF sp(3)]) (simp add: Cons.prems(3))
  then have c: "list_all2 (\<lambda>e x. lookup ?h1 e = Some (Obj_Ranked x)) as rs'"
    by (intro cells_append)
  have p: "lookup ?h1 pq = Some (Obj_Record quotas)"
    using Cons.prems lq by (simp add: lookup_append length_overwrite lookup_overwrite_other)
  have u: "lookup ?h1 qu = Some (Obj_Record usage')"
    using lq by (simp add: lookup_append length_overwrite lookup_overwrite_same)
  from Cons.IH[OF c p u Cons.prems(4)]
  have "map_allocate pq qu as ?h1 =
     Some ([length ?h1 ..< length ?h1 + length as],
           overwrite qu (Obj_Record (usage_after quotas usage' rs')) ?h1 @ map Obj_Ranked (allocate quotas usage' rs'))" .
  moreover have "overwrite qu (Obj_Record (usage_after quotas usage' rs')) ?h1 =
      overwrite qu (Obj_Record (usage_after quotas usage' rs')) h @ [Obj_Ranked (r\<lparr>qualifiedStream := assigned\<rparr>)]"
    using lq by (simp add: overwrite_append length_overwrite overwrite_overwrite)
  ultimately show ?case using sp(1,2) Cons.prems(2,3) sc
    by (simp add: alloc_def upt_conv_Cons length_overwrite del: upt_Suc)
qed

lemma insert_sorted_snd:
  "map snd (insert_sorted (\<lambda>x y. cmp (snd x) (snd y)) z zs) = insert_sorted cmp (snd z) (map snd zs)"
  by (induction zs) simp_all

lemma array_sort_snd:
  "map snd (array_sort (\<lambda>x y. cmp (snd x) (snd y)) zs) = array_sort cmp (map snd zs)"
  by (induction zs) (simp_all add: array_sort_def insert_sorted_snd)

lemma block_cells:
  "list_all2 (\<lambda>e x. lookup (h @ map f xs) e = Some (f x)) [length h ..< length h + length xs] xs"
  by (simp add: list_all2_conv_all_nth lookup_append_new)

lemma take_old_len: "take (length h) h' = h \<Longrightarrow> length h \<le> length h'"
proof -
  assume "take (length h) h' = h"
  then have "length (take (length h) h') = length h" by (rule arg_cong)
  then show ?thesis by simp
qed

lemma lookup_old: "take (length h) h' = h \<Longrightarrow> lookup h a = Some c \<Longrightarrow> lookup h' a = Some c"
proof -
  assume t: "take (length h) h' = h" and l: "lookup h a = Some c"
  from l have a: "a < length h" by (rule lookup_lt)
  from t have "length h \<le> length h'" by (rule take_old_len)
  moreover from t a have "h' ! a = h ! a" by (metis nth_take)
  ultimately show ?thesis using l a by (simp add: lookup_def)
qed

lemma cells_old:
  "take (length h) h' = h \<Longrightarrow> list_all2 (\<lambda>e x. lookup h e = Some (f x)) as xs \<Longrightarrow>
   list_all2 (\<lambda>e x. lookup h' e = Some (f x)) as xs"
  by (erule list_all2_mono) (simp add: lookup_old)

lemma take_append_old: "take (length h) hk = h \<Longrightarrow> take (length h) (hk @ xs) = h"
  using take_old_len[of h hk] by simp

lemma take_overwrite_old:
  "take (length h) hk = h \<Longrightarrow> length h \<le> p \<Longrightarrow> take (length h) (overwrite p c hk) = h"
  by (simp add: take_overwrite)

lemma sort_in_place_run:
  assumes "lookup h p = Some (Arr as)"
    and "list_all2 (\<lambda>e r. lookup h e = Some (Obj_Ranked r)) as rs"
  shows "\<exists>as'. sort_in_place p h = Some (overwrite p (Arr as') h) \<and> length as' = length as \<and>
           set as' = set as \<and>
           list_all2 (\<lambda>e r. lookup (overwrite p (Arr as') h) e = Some (Obj_Ranked r)) as'
             (array_sort sort_comparator rs)"
proof -
  let ?cmp = "\<lambda>x y. sort_comparator (snd x) (snd y)"
  let ?zs = "array_sort ?cmp (zip as rs)"
  have len: "length as = length rs" using assms(2) by (rule list_all2_lengthD)
  have run: "sort_in_place p h = Some (overwrite p (Arr (map fst ?zs)) h)"
    using assms by (simp add: sort_in_place_def read_ranked_run)
  have "\<forall>z \<in> set (zip as rs). lookup h (fst z) = Some (Obj_Ranked (snd z))"
    using assms(2) by (auto simp: list_all2_iff)
  then have "\<forall>z \<in> set ?zs. lookup h (fst z) = Some (Obj_Ranked (snd z))"
    by (simp add: set_array_sort)
  then have "list_all2 (\<lambda>e r. lookup h e = Some (Obj_Ranked r)) (map fst ?zs) (map snd ?zs)"
    by (simp add: list_all2_map1 list_all2_map2 list_all2_same)
  then have "list_all2 (\<lambda>e r. lookup h e = Some (Obj_Ranked r)) (map fst ?zs) (array_sort sort_comparator rs)"
    using len by (simp add: array_sort_snd)
  then have c: "list_all2 (\<lambda>e r. lookup (overwrite p (Arr (map fst ?zs)) h) e = Some (Obj_Ranked r))
      (map fst ?zs) (array_sort sort_comparator rs)"
    by (rule cells_overwrite) (simp add: assms(1))
  have l: "length (map fst ?zs) = length as" using len by (simp add: length_array_sort)
  have "set (map fst ?zs) = fst ` set (zip as rs)" by (simp add: set_array_sort)
  also have "\<dots> = set (map fst (zip as rs))" by simp
  also have "\<dots> = set as" using len by simp
  finally have st: "set (map fst ?zs) = set as" .
  from run c l st show ?thesis by blast
qed

lemma holds_studentsD:
  "holds_students h a ss \<Longrightarrow>
   \<exists>as. lookup h a = Some (Arr as) \<and> list_all2 (\<lambda>e s. lookup h e = Some (Obj_Student s)) as ss"
  by (auto simp: holds_students_def split: option.splits cell.splits)

lemma holds_plansD:
  "holds_plans h a ps \<Longrightarrow>
   \<exists>as. lookup h a = Some (Arr as) \<and> list_all2 (\<lambda>e p. lookup h e = Some (Obj_Plan p)) as ps"
  by (auto simp: holds_plans_def split: option.splits cell.splits)

lemma read_array_run: "lookup h a = Some (Arr as) \<Longrightarrow> read_array h a = Some as"
  by (simp add: read_array_def)

lemma rankStudents_store_run:
  assumes "holds_students h sa students" and "holds_plans h pa plans"
  shows "\<exists>r h'. rankStudents_store sa pa h = Some (r, h') \<and> take (length h) h' = h \<and>
           length h \<le> r \<and> holds_ranked h' r (rankStudents students plans) \<and>
           (\<forall>as. lookup h' r = Some (Arr as) \<longrightarrow> (\<forall>e \<in> set as. length h \<le> e))"
proof -
  from assms(1) obtain ss where ss: "lookup h sa = Some (Arr ss)"
    "list_all2 (\<lambda>e s. lookup h e = Some (Obj_Student s)) ss students"
    using holds_studentsD by blast
  from assms(2) obtain ps where ps: "lookup h pa = Some (Arr ps)"
    "list_all2 (\<lambda>e p. lookup h e = Some (Obj_Plan p)) ps plans"
    using holds_plansD by blast
  have n: "length ss = length students" using ss(2) by (rule list_all2_lengthD)
  \<comment> \<open>step 1: the first map\<close>
  define as1 where "as1 = [length h ..< length h + length ss]"
  define h1 where "h1 = h @ map (\<lambda>s. Obj_Ranked (with_total s)) students"
  have s1: "map_with_total ss h = Some (as1, h1)"
    unfolding as1_def h1_def by (rule map_with_total_run[OF ss(2)])
  have t1: "take (length h) h1 = h" by (simp add: h1_def)
  have "list_all2 (\<lambda>e x. lookup (h @ map Obj_Ranked (map with_total students)) e = Some (Obj_Ranked x))
      [length h ..< length h + length (map with_total students)] (map with_total students)"
    by (rule block_cells)
  then have c1: "list_all2 (\<lambda>e r. lookup h1 e = Some (Obj_Ranked r)) as1 (map with_total students)"
    by (simp add: h1_def as1_def n comp_def)
  define p1 where "p1 = length h1"
  define h2 where "h2 = h1 @ [Arr as1]"
  have a2: "alloc (Arr as1) h1 = (p1, h2)" by (simp add: alloc_def p1_def h2_def)
  have t2: "take (length h) h2 = h" unfolding h2_def by (rule take_append_old[OF t1])
  have c2: "list_all2 (\<lambda>e r. lookup h2 e = Some (Obj_Ranked r)) as1 (map with_total students)"
    unfolding h2_def by (rule cells_append[OF c1])
  have l2: "lookup h2 p1 = Some (Arr as1)" by (simp add: h2_def p1_def lookup_def)
  \<comment> \<open>step 2: the sort, in place\<close>
  from sort_in_place_run[OF l2 c2] obtain as3 where s3:
    "sort_in_place p1 h2 = Some (overwrite p1 (Arr as3) h2)" "length as3 = length as1"
    "list_all2 (\<lambda>e r. lookup (overwrite p1 (Arr as3) h2) e = Some (Obj_Ranked r)) as3
       (array_sort sort_comparator (map with_total students))"
    by blast
  define h3 where "h3 = overwrite p1 (Arr as3) h2"
  have lp1: "length h \<le> p1" by (simp add: p1_def h1_def)
  have t3: "take (length h) h3 = h" unfolding h3_def by (rule take_overwrite_old[OF t2 lp1])
  have l3: "lookup h3 p1 = Some (Arr as3)"
    by (simp add: h3_def h2_def p1_def lookup_overwrite_same)
  have c3: "list_all2 (\<lambda>e r. lookup h3 e = Some (Obj_Ranked r)) as3
       (array_sort sort_comparator (map with_total students))"
    using s3(3) by (simp add: h3_def)
  \<comment> \<open>step 3: the second map\<close>
  define as4 where "as4 = [length h3 ..< length h3 + length as3]"
  define h4 where "h4 = h3 @ map Obj_Ranked (ranked students)"
  have s4: "map_assign_rank 0 as3 h3 = Some (as4, h4)"
    unfolding as4_def h4_def ranked_def assign_rank_def by (rule map_assign_rank_run[OF c3])
  have t4: "take (length h) h4 = h" unfolding h4_def by (rule take_append_old[OF t3])
  have n3: "length as3 = length (ranked students)"
    by (simp add: s3(2) as1_def n length_ranked)
  have c4: "list_all2 (\<lambda>e r. lookup h4 e = Some (Obj_Ranked r)) as4 (ranked students)"
    unfolding h4_def as4_def n3 by (rule block_cells)
  define p2 where "p2 = length h4"
  define h5 where "h5 = h4 @ [Arr as4]"
  have a5: "alloc (Arr as4) h4 = (p2, h5)" by (simp add: alloc_def p2_def h5_def)
  \<comment> \<open>step 4: the two lookup objects\<close>
  define qu where "qu = length h5"
  define h6 where "h6 = h5 @ [Obj_Record Map.empty]"
  have a6: "alloc (Obj_Record Map.empty) h5 = (qu, h6)" by (simp add: alloc_def qu_def h6_def)
  have t6: "take (length h) h6 = h"
    unfolding h6_def h5_def by (intro take_append_old t4)
  have l6: "lookup h6 qu = Some (Obj_Record Map.empty)" by (simp add: h6_def qu_def lookup_def)
  have r6: "read_array h6 pa = Some ps" by (rule read_array_run[OF lookup_old[OF t6 ps(1)]])
  have pl6: "list_all2 (\<lambda>e p. lookup h6 e = Some (Obj_Plan p)) ps plans"
    by (rule cells_old[OF t6 ps(2)])
  define h7 where "h7 = overwrite qu (Obj_Record (init_quotaUsage plans)) h6"
  have s7: "forEach_usage qu ps h6 = Some h7"
    unfolding h7_def init_quotaUsage_def by (rule forEach_usage_run[OF pl6 l6])
  have lqu: "length h \<le> qu" using take_old_len[OF t4] by (simp add: qu_def h5_def)
  have t7: "take (length h) h7 = h" unfolding h7_def by (rule take_overwrite_old[OF t6 lqu])
  define pq where "pq = length h7"
  define h8 where "h8 = h7 @ [Obj_Record Map.empty]"
  have a8: "alloc (Obj_Record Map.empty) h7 = (pq, h8)" by (simp add: alloc_def pq_def h8_def)
  have t8: "take (length h) h8 = h" unfolding h8_def by (rule take_append_old[OF t7])
  have l8: "lookup h8 pq = Some (Obj_Record Map.empty)" by (simp add: h8_def pq_def lookup_def)
  have r8: "read_array h8 pa = Some ps" by (rule read_array_run[OF lookup_old[OF t8 ps(1)]])
  have pl8: "list_all2 (\<lambda>e p. lookup h8 e = Some (Obj_Plan p)) ps plans"
    by (rule cells_old[OF t8 ps(2)])
  define h9 where "h9 = overwrite pq (Obj_Record (init_planQuotas plans)) h8"
  have s9: "forEach_quotas pq ps h8 = Some h9"
    unfolding h9_def init_planQuotas_def by (rule forEach_quotas_run[OF pl8 l8])
  have lpq: "length h \<le> pq" using take_old_len[OF t7] by (simp add: pq_def)
  have t9: "take (length h) h9 = h" unfolding h9_def by (rule take_overwrite_old[OF t8 lpq])
  have lens: "qu = Suc p2" "pq = Suc (Suc p2)" "length h9 = Suc (Suc (Suc p2))"
    by (simp_all add: qu_def pq_def p2_def h5_def h6_def h7_def h8_def h9_def length_overwrite)
  have l9: "lookup h9 p2 = Some (Arr as4)"
    by (simp add: h9_def h8_def h7_def h6_def h5_def lens p2_def lookup_def overwrite_def nth_append)
  have q9: "lookup h9 pq = Some (Obj_Record (init_planQuotas plans))"
    by (simp add: h9_def h8_def pq_def lookup_overwrite_same)
  have "lookup h7 qu = Some (Obj_Record (init_quotaUsage plans))"
    by (simp add: h7_def h6_def qu_def lookup_overwrite_same)
  then have "lookup h8 qu = Some (Obj_Record (init_quotaUsage plans))"
    by (simp add: h8_def lookup_append lookup_lt)
  then have u9: "lookup h9 qu = Some (Obj_Record (init_quotaUsage plans))"
    using lens by (simp add: h9_def lookup_overwrite_other)
  have c5: "list_all2 (\<lambda>e r. lookup h5 e = Some (Obj_Ranked r)) as4 (ranked students)"
    unfolding h5_def by (rule cells_append[OF c4])
  have c6: "list_all2 (\<lambda>e r. lookup h6 e = Some (Obj_Ranked r)) as4 (ranked students)"
    unfolding h6_def by (rule cells_append[OF c5])
  have c7: "list_all2 (\<lambda>e r. lookup h7 e = Some (Obj_Ranked r)) as4 (ranked students)"
    unfolding h7_def by (rule cells_overwrite[OF c6]) (simp add: l6)
  have c8: "list_all2 (\<lambda>e r. lookup h8 e = Some (Obj_Ranked r)) as4 (ranked students)"
    unfolding h8_def by (rule cells_append[OF c7])
  have c9: "list_all2 (\<lambda>e r. lookup h9 e = Some (Obj_Ranked r)) as4 (ranked students)"
    unfolding h9_def by (rule cells_overwrite[OF c8]) (simp add: l8)
  \<comment> \<open>step 5: the allocating map\<close>
  define as6 where "as6 = [length h9 ..< length h9 + length as4]"
  define h10 where "h10 = overwrite qu (Obj_Record (usage_after (init_planQuotas plans)
      (init_quotaUsage plans) (ranked students))) h9 @ map Obj_Ranked (rankStudents students plans)"
  have neq: "pq \<noteq> qu" by (simp add: lens)
  have s10: "map_allocate pq qu as4 h9 = Some (as6, h10)"
    unfolding as6_def h10_def rankStudents_def by (rule map_allocate_run[OF c9 q9 u9 neq])
  define r where "r = length h10"
  define h11 where "h11 = h10 @ [Arr as6]"
  have a11: "alloc (Arr as6) h10 = (r, h11)" by (simp add: alloc_def r_def h11_def)
  have t11: "take (length h) h11 = h"
    unfolding h11_def h10_def by (intro take_append_old take_overwrite_old t9 lqu)
  have lr: "length h \<le> r" using take_old_len[OF t9] by (simp add: r_def h10_def length_overwrite)
  have l11: "lookup h11 r = Some (Arr as6)" by (simp add: h11_def r_def lookup_def)
  have n4: "length as4 = length (rankStudents students plans)"
    by (simp add: as4_def n3 length_ranked length_rankStudents)
  let ?h9' = "overwrite qu (Obj_Record (usage_after (init_planQuotas plans)
      (init_quotaUsage plans) (ranked students))) h9"
  have "list_all2 (\<lambda>e x. lookup (?h9' @ map Obj_Ranked (rankStudents students plans)) e = Some (Obj_Ranked x))
      [length ?h9' ..< length ?h9' + length (rankStudents students plans)] (rankStudents students plans)"
    by (rule block_cells)
  then have "list_all2 (\<lambda>e r. lookup h10 e = Some (Obj_Ranked r)) as6 (rankStudents students plans)"
    by (simp add: h10_def as6_def n4 length_overwrite)
  then have c11: "list_all2 (\<lambda>e r. lookup h11 e = Some (Obj_Ranked r)) as6 (rankStudents students plans)"
    unfolding h11_def by (rule cells_append)
  have hr: "holds_ranked h11 r (rankStudents students plans)"
    using l11 c11 by (simp add: holds_ranked_def)
  have fresh: "\<forall>e \<in> set as6. length h \<le> e"
    using take_old_len[OF t9] by (simp add: as6_def)
  have run: "rankStudents_store sa pa h = Some (r, h11)"
    by (simp add: rankStudents_store_def read_array_run[OF ss(1)] s1 a2 s3(1) h3_def[symmetric]
        read_array_run[OF l3] s4 a5 a6 r6 s7 a8 r8 s9 read_array_run[OF l9] s10 a11)
  from run t11 lr hr l11 fresh show ?thesis by simp
qed

lemma holds_students_old:
  "take (length h) h' = h \<Longrightarrow> holds_students h a ss \<Longrightarrow> holds_students h' a ss"
proof -
  assume t: "take (length h) h' = h" and hs: "holds_students h a ss"
  from holds_studentsD[OF hs] obtain as where as: "lookup h a = Some (Arr as)"
    "list_all2 (\<lambda>e s. lookup h e = Some (Obj_Student s)) as ss" by blast
  from lookup_old[OF t as(1)] cells_old[OF t as(2)] show ?thesis
    by (simp add: holds_students_def)
qed

lemma holds_plans_old:
  "take (length h) h' = h \<Longrightarrow> holds_plans h a ps \<Longrightarrow> holds_plans h' a ps"
proof -
  assume t: "take (length h) h' = h" and hs: "holds_plans h a ps"
  from holds_plansD[OF hs] obtain as where as: "lookup h a = Some (Arr as)"
    "list_all2 (\<lambda>e p. lookup h e = Some (Obj_Plan p)) as ps" by blast
  from lookup_old[OF t as(1)] cells_old[OF t as(2)] show ?thesis
    by (simp add: holds_plans_def)
qed

lemma allocation_adds_only_stream:
  "i < length students \<Longrightarrow>
   rankStudents students plans ! i =
     (ranked students ! i)\<lparr>qualifiedStream := qualifiedStream (rankStudents students plans ! i)\<rparr>"
  by (simp add: rankStudents_def allocate_nth length_ranked)

section \<open>Frame\<close>

text \<open>
  Claim C9 (no mutation of the input). \<open>rankStudents_store\<close> is \<open>rankStudents\<close> run on a
  store in which the caller holds the \<open>students\<close> array with its student objects and the
  \<open>plans\<close> array with its plans. The call succeeds, and afterwards every cell that
  existed before the call is as it was (\<open>take (length h) h' = h\<close>): the students array,
  each student, the plans array and each plan; the only cells written in place are the
  array that \<open>sort\<close> reorders and the two lookup objects, all three created by the call.
  The result is a new array of new objects, and it holds what the functional
  \<open>rankStudents\<close> computes. The allocation stage adds the \<open>qualifiedStream\<close> annotation
  only: each output student is the ranked student of the same position with
  \<open>qualifiedStream\<close> set and every other field (id, names, scores, totalScore, rank,
  preferredStreams) as it was.
\<close>

theorem no_input_mutation:
  assumes "holds_students h sa students" and "holds_plans h pa plans"
  shows "\<exists>r h'. rankStudents_store sa pa h = Some (r, h') \<and>
           take (length h) h' = h \<and>
           holds_students h' sa students \<and> holds_plans h' pa plans \<and>
           length h \<le> r \<and> (\<forall>as. lookup h' r = Some (Arr as) \<longrightarrow> (\<forall>e \<in> set as. length h \<le> e)) \<and>
           holds_ranked h' r (rankStudents students plans) \<and>
           (\<forall>i < length students.
              rankStudents students plans ! i =
                (ranked students ! i)\<lparr>qualifiedStream := qualifiedStream (rankStudents students plans ! i)\<rparr>)"
proof -
  from rankStudents_store_run[OF assms] obtain r h' where run:
    "rankStudents_store sa pa h = Some (r, h')" "take (length h) h' = h" "length h \<le> r"
    "holds_ranked h' r (rankStudents students plans)"
    "\<forall>as. lookup h' r = Some (Arr as) \<longrightarrow> (\<forall>e \<in> set as. length h \<le> e)"
    by blast
  have "holds_students h' sa students" by (rule holds_students_old[OF run(2) assms(1)])
  moreover have "holds_plans h' pa plans" by (rule holds_plans_old[OF run(2) assms(2)])
  moreover have "\<forall>i < length students.
              rankStudents students plans ! i =
                (ranked students ! i)\<lparr>qualifiedStream := qualifiedStream (rankStudents students plans ! i)\<rparr>"
    using allocation_adds_only_stream by blast
  ultimately show ?thesis using run by blast
qed

theorem no_input_mutation_witness:
  "holds_students example_store 2
     [example_student ''B'' [''X''] 70 90 70 70 70, example_student ''A'' [''X''] 80 90 70 70 60] \<and>
   holds_plans example_store 4 [example_plan ''1'' ''X'' 1] \<and>
   (\<exists>r h'. rankStudents_store 2 4 example_store = Some (r, h') \<and>
      take 5 h' = example_store \<and> 5 \<le> r \<and>
      holds_ranked h' r
        (rankStudents [example_student ''B'' [''X''] 70 90 70 70 70, example_student ''A'' [''X''] 80 90 70 70 60]
           [example_plan ''1'' ''X'' 1]))"
proof -
  have h1: "holds_students example_store 2
     [example_student ''B'' [''X''] 70 90 70 70 70, example_student ''A'' [''X''] 80 90 70 70 60]"
    by (simp add: holds_students_def lookup_def example_store_def)
  have h2: "holds_plans example_store 4 [example_plan ''1'' ''X'' 1]"
    by (simp add: holds_plans_def lookup_def example_store_def)
  have l: "length example_store = 5" by (simp add: example_store_def)
  from no_input_mutation[OF h1 h2] h1 h2 show ?thesis
    unfolding l by blast
qed

end
